theory Spec2Isabelle
  imports Main
begin

section \<open>The element type \<open>T\<close> and the outcome of an operation\<close>

text \<open>
  \<open>vector.h\<close> is a template over the element type \<open>T\<close>. Everything the container asks
  of \<open>T\<close> is collected in one record: the two type traits that \<open>CopyOrMoveData\<close> tests,
  which of \<open>T\<close>'s constructors and assignments throw (decided by the value of the object
  that is read), the value of \<open>T()\<close>, and the state a move leaves its source in.
  \<open>sizeof_T\<close> is \<open>sizeof(T)\<close>, and the last field says for which numbers of objects
  \<open>operator new\<close> fails.

  A copy gives the new object the value of its source. A constructor or an assignment
  that throws leaves its source and its target as they were. Destructors do not throw.

  Sizes and offsets are natural numbers. A capacity that a caller passes to \<open>Reserve\<close>,
  \<open>Resize\<close> or \<open>Vector(size_t)\<close> is any number; \<open>Allocate\<close> multiplies it by \<open>sizeof(T)\<close>
  in \<open>size_t\<close>, and the product wraps around. A capacity that the container computes
  itself is the size of a vector or twice that size: the objects counted are in memory,
  in a buffer of at most \<open>PTRDIFF_MAX\<close> bytes, so neither that capacity nor its product
  with \<open>sizeof(T)\<close> wraps around.
\<close>

datatype exn = BadAlloc | ElemExn

record 'a env =
  nothrow_move_constructible :: bool
  copy_constructible :: bool
  copy_ctor_throws :: "'a \<Rightarrow> bool"
  move_ctor_throws :: "'a \<Rightarrow> bool"
  copy_assign_throws :: "'a \<Rightarrow> bool"
  move_assign_throws :: "'a \<Rightarrow> bool"
  value_init :: "'a option"
  moved_from :: "'a \<Rightarrow> 'a"
  sizeof_T :: nat
  alloc_fails :: "nat \<Rightarrow> bool"

text \<open>
  A type whose move constructor is declared \<open>noexcept\<close> has a move constructor that
  does not throw.
\<close>

definition well_formed :: "'a env \<Rightarrow> bool" where
  "well_formed E \<longleftrightarrow> (nothrow_move_constructible E \<longrightarrow> (\<forall>x. \<not> move_ctor_throws E x))"

text \<open>
  An operation returns (\<open>Ok\<close>), leaves by an exception (\<open>Threw\<close>, with the state the
  exception leaves behind), or has undefined behaviour (\<open>Undefined\<close>: a failed
  \<open>assert\<close>, an access outside the buffer, the destruction or the reading of a slot
  that holds no object).
\<close>

datatype ('r, 's) outcome = Ok 'r | Threw exn 's | Undefined

section \<open>Raw memory and the algorithms of \<open><memory>\<close> and \<open><algorithm>\<close>\<close>

text \<open>
  A slot of raw memory is \<open>None\<close> while it is uninitialised and \<open>Some x\<close> while it holds
  a live object of value \<open>x\<close>. A pointer into a buffer is the buffer and an offset; the
  null pointer is the empty buffer.
\<close>

type_synonym 'a buf = "'a option list"

fun destroy_n :: "'a buf \<Rightarrow> nat \<Rightarrow> nat \<Rightarrow> 'a buf option" where
  "destroy_n b first 0 = Some b"
| "destroy_n b first (Suc n) =
     (if first < length b \<and> b ! first \<noteq> None
      then destroy_n (b[first := None]) (Suc first) n
      else None)"

text \<open>
  \<open>std::uninitialized_copy_n\<close>: copy-constructs \<open>n\<close> objects of \<open>src\<close> from \<open>first\<close> on
  into the raw slots of \<open>dst\<close> from \<open>d\<close> on. When a constructor throws, the objects
  constructed so far are destroyed and the exception goes on.
\<close>

fun uninitialized_copy_n ::
  "'a env \<Rightarrow> 'a buf \<Rightarrow> nat \<Rightarrow> nat \<Rightarrow> 'a buf \<Rightarrow> nat \<Rightarrow> ('a buf, 'a buf) outcome" where
  "uninitialized_copy_n E src first 0 dst d = Ok dst"
| "uninitialized_copy_n E src first (Suc n) dst d =
     (if first < length src \<and> d < length dst then
        (case src ! first of
           None \<Rightarrow> Undefined
         | Some x \<Rightarrow>
             if copy_ctor_throws E x then Threw ElemExn dst
             else (case uninitialized_copy_n E src (Suc first) n (dst[d := Some x]) (Suc d) of
                     Ok r \<Rightarrow> Ok r
                   | Threw e dst' \<Rightarrow> Threw e (dst'[d := None])
                   | Undefined \<Rightarrow> Undefined))
      else Undefined)"

text \<open>
  \<open>std::uninitialized_move_n\<close>: the same with the move constructor, which leaves each
  source object in its moved-from state.
\<close>

fun uninitialized_move_n ::
  "'a env \<Rightarrow> 'a buf \<Rightarrow> nat \<Rightarrow> nat \<Rightarrow> 'a buf \<Rightarrow> nat \<Rightarrow> ('a buf \<times> 'a buf, 'a buf \<times> 'a buf) outcome" where
  "uninitialized_move_n E src first 0 dst d = Ok (src, dst)"
| "uninitialized_move_n E src first (Suc n) dst d =
     (if first < length src \<and> d < length dst then
        (case src ! first of
           None \<Rightarrow> Undefined
         | Some x \<Rightarrow>
             if move_ctor_throws E x then Threw ElemExn (src, dst)
             else (case uninitialized_move_n E (src[first := Some (moved_from E x)]) (Suc first) n
                          (dst[d := Some x]) (Suc d) of
                     Ok r \<Rightarrow> Ok r
                   | Threw e (src', dst') \<Rightarrow> Threw e (src', dst'[d := None])
                   | Undefined \<Rightarrow> Undefined))
      else Undefined)"

text \<open>\<open>std::uninitialized_value_construct_n\<close>: \<open>n\<close> objects \<open>T()\<close> from \<open>first\<close> on.\<close>

fun uninitialized_value_construct_n ::
  "'a env \<Rightarrow> 'a buf \<Rightarrow> nat \<Rightarrow> nat \<Rightarrow> ('a buf, 'a buf) outcome" where
  "uninitialized_value_construct_n E b first 0 = Ok b"
| "uninitialized_value_construct_n E b first (Suc n) =
     (if first < length b then
        (case value_init E of
           None \<Rightarrow> Threw ElemExn b
         | Some x \<Rightarrow>
             (case uninitialized_value_construct_n E (b[first := Some x]) (Suc first) n of
                Ok r \<Rightarrow> Ok r
              | Threw e b' \<Rightarrow> Threw e (b'[first := None])
              | Undefined \<Rightarrow> Undefined))
      else Undefined)"

text \<open>
  \<open>std::copy_n\<close>: copy-assigns \<open>n\<close> objects of \<open>src\<close> to the live objects of \<open>dst\<close>. An
  exception leaves the objects assigned so far as they are.
\<close>

fun copy_n ::
  "'a env \<Rightarrow> 'a buf \<Rightarrow> nat \<Rightarrow> nat \<Rightarrow> 'a buf \<Rightarrow> nat \<Rightarrow> ('a buf, 'a buf) outcome" where
  "copy_n E src first 0 dst d = Ok dst"
| "copy_n E src first (Suc n) dst d =
     (if first < length src \<and> d < length dst then
        (case (src ! first, dst ! d) of
           (Some x, Some y) \<Rightarrow>
             if copy_assign_throws E x then Threw ElemExn dst
             else copy_n E src (Suc first) n (dst[d := Some x]) (Suc d)
         | _ \<Rightarrow> Undefined)
      else Undefined)"

text \<open>
  One move assignment \<open>b[d] = std::move(b[s])\<close> inside a buffer: both slots hold an
  object, the target takes the value and the source is left moved-from.
\<close>

definition move_assign :: "'a env \<Rightarrow> 'a buf \<Rightarrow> nat \<Rightarrow> nat \<Rightarrow> ('a buf, 'a buf) outcome" where
  "move_assign E b d s =
     (if s < length b \<and> d < length b then
        (case (b ! s, b ! d) of
           (Some x, Some y) \<Rightarrow>
             if move_assign_throws E x then Threw ElemExn b
             else Ok (b[d := Some x, s := Some (moved_from E x)])
         | _ \<Rightarrow> Undefined)
      else Undefined)"

text \<open>
  \<open>std::move(first, last, d_first)\<close> on one buffer, front to back; the loop
  \<open>move_loop\<close> runs \<open>last - first\<close> times.
\<close>

fun move_loop :: "'a env \<Rightarrow> 'a buf \<Rightarrow> nat \<Rightarrow> nat \<Rightarrow> nat \<Rightarrow> ('a buf, 'a buf) outcome" where
  "move_loop E b first 0 d = Ok b"
| "move_loop E b first (Suc n) d =
     (case move_assign E b d first of
        Ok b' \<Rightarrow> move_loop E b' (Suc first) n (Suc d)
      | Threw e b' \<Rightarrow> Threw e b'
      | Undefined \<Rightarrow> Undefined)"

definition std_move :: "'a env \<Rightarrow> 'a buf \<Rightarrow> nat \<Rightarrow> nat \<Rightarrow> nat \<Rightarrow> ('a buf, 'a buf) outcome" where
  "std_move E b first lst d_first =
     (if first \<le> lst then move_loop E b first (lst - first) d_first else Undefined)"

text \<open>
  \<open>std::move_backward(first, last, d_last)\<close> on one buffer, back to front:
  \<open>*(--d_last) = std::move(*(--last))\<close> until \<open>last\<close> reaches \<open>first\<close>.
\<close>

fun move_backward_loop :: "'a env \<Rightarrow> 'a buf \<Rightarrow> nat \<Rightarrow> nat \<Rightarrow> nat \<Rightarrow> ('a buf, 'a buf) outcome" where
  "move_backward_loop E b 0 lst d_last = Ok b"
| "move_backward_loop E b (Suc n) lst d_last =
     (if 0 < lst \<and> 0 < d_last then
        (case move_assign E b (d_last - 1) (lst - 1) of
           Ok b' \<Rightarrow> move_backward_loop E b' n (lst - 1) (d_last - 1)
         | Threw e b' \<Rightarrow> Threw e b'
         | Undefined \<Rightarrow> Undefined)
      else Undefined)"

definition move_backward :: "'a env \<Rightarrow> 'a buf \<Rightarrow> nat \<Rightarrow> nat \<Rightarrow> nat \<Rightarrow> ('a buf, 'a buf) outcome" where
  "move_backward E b first lst d_last =
     (if first \<le> lst then move_backward_loop E b (lst - first) lst d_last else Undefined)"

text \<open>Placement new of a value into slot \<open>i\<close>.\<close>

definition construct_at :: "'a buf \<Rightarrow> nat \<Rightarrow> 'a \<Rightarrow> 'a buf option" where
  "construct_at b i x = (if i < length b then Some (b[i := Some x]) else None)"

section \<open>\<open>RawMemory\<close>\<close>

text \<open>The members \<open>buffer_\<close> and \<open>capacity_\<close> are the fields \<open>m_buffer\<close> and \<open>m_capacity\<close>.\<close>

record 'a RawMemory =
  m_buffer :: "'a buf"
  m_capacity :: nat

text \<open>\<open>RawMemory() = default\<close>: the null pointer and capacity 0.\<close>

definition RawMemory_default :: "'a RawMemory" where
  "RawMemory_default = \<lparr>m_buffer = [], m_capacity = 0\<rparr>"

text \<open>
  \<open>size_t\<close> has 64 bits. \<open>fits E n\<close>: the size in bytes of \<open>n\<close> objects of type \<open>T\<close> is a
  value of \<open>size_t\<close>.
\<close>

definition size_t_mod :: nat where
  "size_t_mod = 2 ^ 64"

definition fits :: "'a env \<Rightarrow> nat \<Rightarrow> bool" where
  "fits E n \<longleftrightarrow> 0 < sizeof_T E \<and> n * sizeof_T E < size_t_mod"

text \<open>
  \<open>Allocate\<close>: the null pointer for 0, and \<open>operator new(n * sizeof(T))\<close>, which may
  throw, for \<open>n \<noteq> 0\<close>. The product is computed in \<open>size_t\<close>: when it wraps around,
  \<open>operator new\<close> is asked for the remainder, and the block it returns has room for
  fewer than \<open>n\<close> objects. Nothing in \<open>Allocate\<close> or in its callers tests for that.
\<close>

definition Allocate :: "'a env \<Rightarrow> nat \<Rightarrow> ('a buf, unit) outcome" where
  "Allocate E n =
     (if n \<noteq> 0 then
        (if alloc_fails E n then Threw BadAlloc ()
         else Ok (replicate (((n * sizeof_T E) mod size_t_mod) div sizeof_T E) None))
      else Ok [])"

text \<open>
  \<open>explicit RawMemory(size_t capacity)\<close>: \<open>capacity_\<close> is the capacity asked for, whatever
  the size of the block.
\<close>

definition RawMemory_ctor :: "'a env \<Rightarrow> nat \<Rightarrow> ('a RawMemory, unit) outcome" where
  "RawMemory_ctor E capacity =
     (case Allocate E capacity of
        Ok b \<Rightarrow> Ok \<lparr>m_buffer = b, m_capacity = capacity\<rparr>
      | Threw e u \<Rightarrow> Threw e ()
      | Undefined \<Rightarrow> Undefined)"

text \<open>
  The same constructor where the container calls it with a capacity of its own: the
  size of the vector that is copied, or twice the size of the vector that grows (1 for
  an empty one). The objects counted by that size are in memory, \<open>in_memory\<close>: an
  object and an array of objects occupy at most \<open>PTRDIFF_MAX\<close> bytes. So the product
  with \<open>sizeof(T)\<close> does not wrap around (lemma \<open>RawMemory_ctor_own_capacity\<close>), and the
  block has room for all \<open>capacity\<close> objects.
\<close>

definition in_memory :: "'a env \<Rightarrow> nat \<Rightarrow> bool" where
  "in_memory E n \<longleftrightarrow> 0 < sizeof_T E \<and> sizeof_T E < 2 ^ 63 \<and> n * sizeof_T E < 2 ^ 63"

definition RawMemory_ctor_fitting :: "'a env \<Rightarrow> nat \<Rightarrow> ('a RawMemory, unit) outcome" where
  "RawMemory_ctor_fitting E capacity =
     (if capacity \<noteq> 0 \<and> alloc_fails E capacity then Threw BadAlloc ()
      else Ok \<lparr>m_buffer = replicate capacity None, m_capacity = capacity\<rparr>)"

text \<open>
  \<open>RawMemory(RawMemory&& other)\<close>: the new object takes the buffer and the capacity,
  \<open>other\<close> is left with the null pointer and capacity 0. The result is the new object
  and what is left of \<open>other\<close>.
\<close>

definition RawMemory_move :: "'a RawMemory \<Rightarrow> 'a RawMemory \<times> 'a RawMemory" where
  "RawMemory_move other =
     (\<lparr>m_buffer = m_buffer other, m_capacity = m_capacity other\<rparr>,
      \<lparr>m_buffer = [], m_capacity = 0\<rparr>)"

text \<open>\<open>RawMemory::Swap\<close>.\<close>

definition RawMemory_Swap :: "'a RawMemory \<Rightarrow> 'a RawMemory \<Rightarrow> 'a RawMemory \<times> 'a RawMemory" where
  "RawMemory_Swap m other =
     (\<lparr>m_buffer = m_buffer other, m_capacity = m_capacity other\<rparr>,
      \<lparr>m_buffer = m_buffer m, m_capacity = m_capacity m\<rparr>)"

text \<open>
  \<open>RawMemory::CopyOrMoveData\<close>: moves when \<open>T\<close> is nothrow-move-constructible or not
  copy-constructible, copies otherwise. The result is the source buffer and the
  destination buffer after the call.
\<close>

definition CopyOrMoveData ::
  "'a env \<Rightarrow> 'a buf \<Rightarrow> nat \<Rightarrow> nat \<Rightarrow> 'a buf \<Rightarrow> nat \<Rightarrow> ('a buf \<times> 'a buf, 'a buf \<times> 'a buf) outcome" where
  "CopyOrMoveData E src first count dst d =
     (if nothrow_move_constructible E \<or> \<not> copy_constructible E
      then uninitialized_move_n E src first count dst d
      else (case uninitialized_copy_n E src first count dst d of
              Ok dst' \<Rightarrow> Ok (src, dst')
            | Threw e dst' \<Rightarrow> Threw e (src, dst')
            | Undefined \<Rightarrow> Undefined))"

section \<open>\<open>Vector\<close>\<close>

text \<open>The members \<open>data_\<close> and \<open>size_\<close> are the fields \<open>m_data\<close> and \<open>m_size\<close>.\<close>

record 'a Vector =
  m_data :: "'a RawMemory"
  m_size :: nat

text \<open>
  An iterator is a pointer into the buffer of the vector; it is modelled by its offset
  from \<open>begin()\<close>, so \<open>end()\<close> is the offset \<open>size_\<close>.
\<close>

definition Size :: "'a Vector \<Rightarrow> nat" where
  "Size v = m_size v"

definition Capacity :: "'a Vector \<Rightarrow> nat" where
  "Capacity v = m_capacity (m_data v)"

text \<open>\<open>operator[]\<close>: \<open>assert(index < size_)\<close>, then the slot; \<open>None\<close> is undefined behaviour.\<close>

definition at :: "'a Vector \<Rightarrow> nat \<Rightarrow> 'a option" where
  "at v index =
     (if index < m_size v \<and> index < m_capacity (m_data v) \<and> index < length (m_buffer (m_data v))
      then m_buffer (m_data v) ! index else None)"

text \<open>The same vector with another content of its buffer.\<close>

definition with_buffer :: "'a Vector \<Rightarrow> 'a buf \<Rightarrow> 'a Vector" where
  "with_buffer v b = v\<lparr>m_data := (m_data v)\<lparr>m_buffer := b\<rparr>\<rparr>"

text \<open>\<open>Vector() = default\<close>.\<close>

definition Vector_default :: "'a Vector" where
  "Vector_default = \<lparr>m_data = RawMemory_default, m_size = 0\<rparr>"

text \<open>
  \<open>Vector(size_t size)\<close>. When the constructor throws there is no vector; the buffer
  is released by the destructor of \<open>data_\<close>.
\<close>

definition Vector_sized :: "'a env \<Rightarrow> nat \<Rightarrow> ('a Vector, unit) outcome" where
  "Vector_sized E n =
     (case RawMemory_ctor E n of
        Threw e u \<Rightarrow> Threw e ()
      | Undefined \<Rightarrow> Undefined
      | Ok m \<Rightarrow>
          (case uninitialized_value_construct_n E (m_buffer m) 0 n of
             Threw e b \<Rightarrow> Threw e ()
           | Undefined \<Rightarrow> Undefined
           | Ok b \<Rightarrow> Ok \<lparr>m_data = m\<lparr>m_buffer := b\<rparr>, m_size = n\<rparr>))"

text \<open>\<open>Vector(const Vector& other)\<close>.\<close>

definition Vector_copy :: "'a env \<Rightarrow> 'a Vector \<Rightarrow> ('a Vector, unit) outcome" where
  "Vector_copy E other =
     (case RawMemory_ctor_fitting E (m_size other) of
        Threw e u \<Rightarrow> Threw e ()
      | Undefined \<Rightarrow> Undefined
      | Ok m \<Rightarrow>
          (case uninitialized_copy_n E (m_buffer (m_data other)) 0 (m_size other) (m_buffer m) 0 of
             Threw e b \<Rightarrow> Threw e ()
           | Undefined \<Rightarrow> Undefined
           | Ok b \<Rightarrow> Ok \<lparr>m_data = m\<lparr>m_buffer := b\<rparr>, m_size = m_size other\<rparr>))"

text \<open>
  \<open>Vector(Vector&& other) noexcept\<close>: the result is the new vector and what is left
  of \<open>other\<close>.
\<close>

definition Vector_move :: "'a Vector \<Rightarrow> 'a Vector \<times> 'a Vector" where
  "Vector_move other =
     (case RawMemory_move (m_data other) of
        (m, other_data) \<Rightarrow> (\<lparr>m_data = m, m_size = m_size other\<rparr>, \<lparr>m_data = other_data, m_size = 0\<rparr>))"

text \<open>
  \<open>~Vector()\<close>: destroys the \<open>size_\<close> objects; the buffer, returned here as it is when
  \<open>~RawMemory\<close> releases it, is gone afterwards.
\<close>

definition Vector_dtor :: "'a Vector \<Rightarrow> 'a buf option" where
  "Vector_dtor v = destroy_n (m_buffer (m_data v)) 0 (m_size v)"

text \<open>\<open>Vector::Swap\<close>.\<close>

definition Swap :: "'a Vector \<Rightarrow> 'a Vector \<Rightarrow> 'a Vector \<times> 'a Vector" where
  "Swap v other =
     (case RawMemory_Swap (m_data v) (m_data other) of
        (m, other_data) \<Rightarrow> (\<lparr>m_data = m, m_size = m_size other\<rparr>, \<lparr>m_data = other_data, m_size = m_size v\<rparr>))"

text \<open>
  \<open>Vector::Reserve\<close>. The local \<open>new_data\<close> is released at the end of the call without
  any destructor of \<open>T\<close> being run on it: after an exception it is the new buffer, after
  the swap it is the old one.
\<close>

definition Reserve :: "'a env \<Rightarrow> 'a Vector \<Rightarrow> nat \<Rightarrow> ('a Vector, 'a Vector) outcome" where
  "Reserve E v new_capacity =
     (if new_capacity \<le> m_capacity (m_data v) then Ok v
      else
        (case RawMemory_ctor E new_capacity of
           Threw e u \<Rightarrow> Threw e v
         | Undefined \<Rightarrow> Undefined
         | Ok new_data \<Rightarrow>
             (case CopyOrMoveData E (m_buffer (m_data v)) 0 (m_size v) (m_buffer new_data) 0 of
                Threw e (old, new) \<Rightarrow> Threw e (with_buffer v old)
              | Undefined \<Rightarrow> Undefined
              | Ok (old, new) \<Rightarrow>
                  (case destroy_n old 0 (m_size v) of
                     None \<Rightarrow> Undefined
                   | Some old' \<Rightarrow>
                       (case RawMemory_Swap ((m_data v)\<lparr>m_buffer := old'\<rparr>) (new_data\<lparr>m_buffer := new\<rparr>) of
                          (m, new_data') \<Rightarrow> Ok (v\<lparr>m_data := m\<rparr>))))))"

text \<open>\<open>Vector::Resize\<close>.\<close>

definition Resize :: "'a env \<Rightarrow> 'a Vector \<Rightarrow> nat \<Rightarrow> ('a Vector, 'a Vector) outcome" where
  "Resize E v new_size =
     (if new_size \<le> m_size v then
        (case destroy_n (m_buffer (m_data v)) new_size (m_size v - new_size) of
           None \<Rightarrow> Undefined
         | Some b \<Rightarrow> Ok ((with_buffer v b)\<lparr>m_size := new_size\<rparr>))
      else
        (case Reserve E v new_size of
           Threw e v' \<Rightarrow> Threw e v'
         | Undefined \<Rightarrow> Undefined
         | Ok v' \<Rightarrow>
             (case uninitialized_value_construct_n E (m_buffer (m_data v')) (m_size v')
                     (new_size - m_size v') of
                Threw e b \<Rightarrow> Threw e (with_buffer v' b)
              | Undefined \<Rightarrow> Undefined
              | Ok b \<Rightarrow> Ok ((with_buffer v' b)\<lparr>m_size := new_size\<rparr>))))"

text \<open>
  \<open>Vector::PopBack\<close>. On an empty vector \<open>data_.GetAddress() + size_ - 1\<close> points before
  the buffer.
\<close>

definition PopBack :: "'a Vector \<Rightarrow> ('a Vector, 'a Vector) outcome" where
  "PopBack v =
     (if m_size v = 0 then Undefined
      else
        (case destroy_n (m_buffer (m_data v)) (m_size v - 1) 1 of
           None \<Rightarrow> Undefined
         | Some b \<Rightarrow> Ok ((with_buffer v b)\<lparr>m_size := m_size v - 1\<rparr>)))"

text \<open>
  \<open>Vector::Erase\<close>: \<open>it\<close> is the offset \<open>pos\<close>; the result is the vector and the iterator
  \<open>it\<close>.
\<close>

definition Erase :: "'a env \<Rightarrow> 'a Vector \<Rightarrow> nat \<Rightarrow> ('a Vector \<times> nat, 'a Vector) outcome" where
  "Erase E v pos =
     (case std_move E (m_buffer (m_data v)) (pos + 1) (m_size v) pos of
        Threw e b \<Rightarrow> Threw e (with_buffer v b)
      | Undefined \<Rightarrow> Undefined
      | Ok b \<Rightarrow>
          (if m_size v = 0 then Undefined
           else
             (case destroy_n b (m_size v - 1) 1 of
                None \<Rightarrow> Undefined
              | Some b' \<Rightarrow> Ok ((with_buffer v b')\<lparr>m_size := m_size v - 1\<rparr>, pos))))"

subsection \<open>Constructing the new element\<close>

text \<open>
  The arguments of \<open>Emplace\<close> are forwarded to a constructor of \<open>T\<close>. \<open>Insert\<close> and
  \<open>PushBack\<close> pass a \<open>const T&\<close> (the copy constructor runs) or a \<open>T&&\<close> (the move
  constructor runs); the object referred to lies outside the vector or is the element
  at an index of the vector itself. \<open>Direct\<close> stands for any other constructor call,
  with its value, or \<open>None\<close> when it throws.
\<close>

datatype 'a src = Outside 'a | Inside nat

datatype 'a args = CopyOf "'a src" | MoveOf "'a src" | Direct "'a option"

fun read_src :: "'a buf \<Rightarrow> 'a src \<Rightarrow> 'a option" where
  "read_src b (Outside x) = Some x"
| "read_src b (Inside i) = (if i < length b then b ! i else None)"

fun leave_moved :: "'a env \<Rightarrow> 'a buf \<Rightarrow> 'a src \<Rightarrow> 'a \<Rightarrow> 'a buf" where
  "leave_moved E b (Outside y) x = b"
| "leave_moved E b (Inside i) x = b[i := Some (moved_from E x)]"

text \<open>\<open>T(std::forward<Args>(args)...)\<close>: the buffer afterwards and the value constructed.\<close>

fun construct_T :: "'a env \<Rightarrow> 'a buf \<Rightarrow> 'a args \<Rightarrow> ('a buf \<times> 'a, 'a buf) outcome" where
  "construct_T E b (Direct r) =
     (case r of None \<Rightarrow> Threw ElemExn b | Some x \<Rightarrow> Ok (b, x))"
| "construct_T E b (CopyOf s) =
     (case read_src b s of
        None \<Rightarrow> Undefined
      | Some x \<Rightarrow> if copy_ctor_throws E x then Threw ElemExn b else Ok (b, x))"
| "construct_T E b (MoveOf s) =
     (case read_src b s of
        None \<Rightarrow> Undefined
      | Some x \<Rightarrow> if move_ctor_throws E x then Threw ElemExn b else Ok (leave_moved E b s x, x))"

text \<open>\<open>new (b + d) T(std::move(b[s]))\<close> inside one buffer.\<close>

definition move_construct :: "'a env \<Rightarrow> 'a buf \<Rightarrow> nat \<Rightarrow> nat \<Rightarrow> ('a buf, 'a buf) outcome" where
  "move_construct E b d s =
     (if s < length b \<and> d < length b then
        (case b ! s of
           None \<Rightarrow> Undefined
         | Some x \<Rightarrow>
             if move_ctor_throws E x then Threw ElemExn b
             else Ok (b[d := Some x, s := Some (moved_from E x)]))
      else Undefined)"

text \<open>\<open>b[i] = std::move(temp)\<close> for a temporary of value \<open>x\<close>.\<close>

definition assign_temp :: "'a env \<Rightarrow> 'a buf \<Rightarrow> nat \<Rightarrow> 'a \<Rightarrow> ('a buf, 'a buf) outcome" where
  "assign_temp E b i x =
     (if i < length b \<and> b ! i \<noteq> None then
        (if move_assign_throws E x then Threw ElemExn b else Ok (b[i := Some x]))
      else Undefined)"

subsection \<open>\<open>Emplace\<close>\<close>

text \<open>
  The two \<open>try\<close> blocks of \<open>EmplaceWithRealloc\<close>, on the old buffer and on the new one,
  which already holds the new element at \<open>offset\<close>. After an exception the result is
  the pair of buffers as the rethrow leaves them.
\<close>

definition relocate_around ::
  "'a env \<Rightarrow> 'a buf \<Rightarrow> nat \<Rightarrow> nat \<Rightarrow> 'a buf \<Rightarrow> ('a buf \<times> 'a buf, 'a buf \<times> 'a buf) outcome" where
  "relocate_around E old n offset new =
     (case CopyOrMoveData E old 0 offset new 0 of
        Threw e (old1, new1) \<Rightarrow>
          (case destroy_n new1 offset 1 of
             None \<Rightarrow> Undefined
           | Some new2 \<Rightarrow> Threw e (old1, new2))
      | Undefined \<Rightarrow> Undefined
      | Ok (old1, new1) \<Rightarrow>
          (if offset \<le> n then
             (case CopyOrMoveData E old1 offset (n - offset) new1 (offset + 1) of
                Threw e (old2, new2) \<Rightarrow>
                  (case destroy_n new2 0 offset of
                     None \<Rightarrow> Undefined
                   | Some new3 \<Rightarrow> Threw e (old2, new3))
              | Undefined \<Rightarrow> Undefined
              | Ok r \<Rightarrow> Ok r)
           else Undefined))"

text \<open>
  \<open>Vector::EmplaceWithRealloc\<close>. The result is the vector and the iterator
  \<open>begin() + offset\<close>. After an exception \<open>new_data\<close> is released as it is.
\<close>

definition EmplaceWithRealloc ::
  "'a env \<Rightarrow> 'a Vector \<Rightarrow> nat \<Rightarrow> 'a args \<Rightarrow> ('a Vector \<times> nat, 'a Vector) outcome" where
  "EmplaceWithRealloc E v pos args =
     (let new_size = m_size v + 1;
          new_capacity = (if m_size v > 0 then m_size v * 2 else 1);
          offset = pos
      in case RawMemory_ctor_fitting E new_capacity of
           Threw e u \<Rightarrow> Threw e v
         | Undefined \<Rightarrow> Undefined
         | Ok new_data \<Rightarrow>
             (case construct_T E (m_buffer (m_data v)) args of
                Threw e old \<Rightarrow> Threw e (with_buffer v old)
              | Undefined \<Rightarrow> Undefined
              | Ok (old, x) \<Rightarrow>
                  (case construct_at (m_buffer new_data) offset x of
                     None \<Rightarrow> Undefined
                   | Some new \<Rightarrow>
                       (case relocate_around E old (m_size v) offset new of
                          Threw e (old', new') \<Rightarrow> Threw e (with_buffer v old')
                        | Undefined \<Rightarrow> Undefined
                        | Ok (old', new') \<Rightarrow>
                            (case destroy_n old' 0 (m_size v) of
                               None \<Rightarrow> Undefined
                             | Some old'' \<Rightarrow>
                                 (case RawMemory_Swap ((m_data v)\<lparr>m_buffer := old''\<rparr>)
                                         (new_data\<lparr>m_buffer := new'\<rparr>) of
                                    (m, new_data') \<Rightarrow>
                                      Ok (\<lparr>m_data = m, m_size = new_size\<rparr>, offset)))))))"

text \<open>\<open>Vector::EmplaceWithoutRealloc\<close>.\<close>

definition EmplaceWithoutRealloc ::
  "'a env \<Rightarrow> 'a Vector \<Rightarrow> nat \<Rightarrow> 'a args \<Rightarrow> ('a Vector \<times> nat, 'a Vector) outcome" where
  "EmplaceWithoutRealloc E v pos args =
     (let new_size = m_size v + 1;
          offset = pos
      in if pos = m_size v then
           (case construct_T E (m_buffer (m_data v)) args of
              Threw e b \<Rightarrow> Threw e (with_buffer v b)
            | Undefined \<Rightarrow> Undefined
            | Ok (b, x) \<Rightarrow>
                (case construct_at b (m_size v) x of
                   None \<Rightarrow> Undefined
                 | Some b' \<Rightarrow> Ok ((with_buffer v b')\<lparr>m_size := new_size\<rparr>, offset)))
         else
           (case construct_T E (m_buffer (m_data v)) args of
              Threw e b \<Rightarrow> Threw e (with_buffer v b)
            | Undefined \<Rightarrow> Undefined
            | Ok (b, temp) \<Rightarrow>
                (if m_size v = 0 then Undefined
                 else
                   (case move_construct E b (m_size v) (m_size v - 1) of
                      Threw e b1 \<Rightarrow> Threw e (with_buffer v b1)
                    | Undefined \<Rightarrow> Undefined
                    | Ok b1 \<Rightarrow>
                        (case move_backward E b1 offset (m_size v - 1) (m_size v) of
                           Threw e b2 \<Rightarrow> Threw e (with_buffer v b2)
                         | Undefined \<Rightarrow> Undefined
                         | Ok b2 \<Rightarrow>
                             (case assign_temp E b2 offset temp of
                                Threw e b3 \<Rightarrow> Threw e (with_buffer v b3)
                              | Undefined \<Rightarrow> Undefined
                              | Ok b3 \<Rightarrow>
                                  Ok ((with_buffer v b3)\<lparr>m_size := new_size\<rparr>, offset)))))))"

text \<open>\<open>Vector::Emplace\<close>.\<close>

definition Emplace ::
  "'a env \<Rightarrow> 'a Vector \<Rightarrow> nat \<Rightarrow> 'a args \<Rightarrow> ('a Vector \<times> nat, 'a Vector) outcome" where
  "Emplace E v pos args =
     (if m_size v = Capacity v then EmplaceWithRealloc E v pos args
      else EmplaceWithoutRealloc E v pos args)"

text \<open>\<open>Insert(const_iterator pos, const T& value)\<close> and \<open>Insert(const_iterator pos, T&& value)\<close>.\<close>

definition Insert :: "'a env \<Rightarrow> 'a Vector \<Rightarrow> nat \<Rightarrow> 'a src \<Rightarrow> ('a Vector \<times> nat, 'a Vector) outcome" where
  "Insert E v pos val = Emplace E v pos (CopyOf val)"

definition Insert_rvalue ::
  "'a env \<Rightarrow> 'a Vector \<Rightarrow> nat \<Rightarrow> 'a src \<Rightarrow> ('a Vector \<times> nat, 'a Vector) outcome" where
  "Insert_rvalue E v pos val = Emplace E v pos (MoveOf val)"

text \<open>\<open>EmplaceBack\<close>: \<open>*Emplace(cend(), args...)\<close>, the reference given as the index.\<close>

definition EmplaceBack ::
  "'a env \<Rightarrow> 'a Vector \<Rightarrow> 'a args \<Rightarrow> ('a Vector \<times> nat, 'a Vector) outcome" where
  "EmplaceBack E v args = Emplace E v (m_size v) args"

text \<open>\<open>PushBack(const T& value)\<close> and \<open>PushBack(T&& value)\<close>.\<close>

definition PushBack :: "'a env \<Rightarrow> 'a Vector \<Rightarrow> 'a src \<Rightarrow> ('a Vector, 'a Vector) outcome" where
  "PushBack E v val =
     (case EmplaceBack E v (CopyOf val) of
        Ok (v', r) \<Rightarrow> Ok v'
      | Threw e v' \<Rightarrow> Threw e v'
      | Undefined \<Rightarrow> Undefined)"

definition PushBack_rvalue :: "'a env \<Rightarrow> 'a Vector \<Rightarrow> 'a src \<Rightarrow> ('a Vector, 'a Vector) outcome" where
  "PushBack_rvalue E v val =
     (case EmplaceBack E v (MoveOf val) of
        Ok (v', r) \<Rightarrow> Ok v'
      | Threw e v' \<Rightarrow> Threw e v'
      | Undefined \<Rightarrow> Undefined)"

subsection \<open>Assignment\<close>

text \<open>
  The assignment operators compare and exchange the two objects \<open>*this\<close> and \<open>rhs\<close>, so
  they are modelled on a store of vectors, with the two objects given by their
  addresses.
\<close>

type_synonym 'a store = "nat \<Rightarrow> 'a Vector"

text \<open>\<open>Vector& operator=(const Vector& rhs)\<close>.\<close>

definition copy_assign ::
  "'a env \<Rightarrow> 'a store \<Rightarrow> nat \<Rightarrow> nat \<Rightarrow> ('a store, 'a store) outcome" where
  "copy_assign E st this rhs =
     (if this \<noteq> rhs then
        (if m_size (st rhs) > Capacity (st this) then
           (case Vector_copy E (st rhs) of
              Threw e u \<Rightarrow> Threw e st
            | Undefined \<Rightarrow> Undefined
            | Ok rhs_copy \<Rightarrow>
                (case Swap (st this) rhs_copy of
                   (self, rhs_copy') \<Rightarrow>
                     (case Vector_dtor rhs_copy' of
                        None \<Rightarrow> Undefined
                      | Some released \<Rightarrow> Ok (st(this := self)))))
         else
           (let count = min (m_size (st rhs)) (m_size (st this)) in
            case copy_n E (m_buffer (m_data (st rhs))) 0 count (m_buffer (m_data (st this))) 0 of
              Threw e b \<Rightarrow> Threw e (st(this := with_buffer (st this) b))
            | Undefined \<Rightarrow> Undefined
            | Ok b \<Rightarrow>
                (if m_size (st rhs) < m_size (st this) then
                   (case destroy_n b (m_size (st rhs)) (m_size (st this) - m_size (st rhs)) of
                      None \<Rightarrow> Undefined
                    | Some b' \<Rightarrow>
                        Ok (st(this := (with_buffer (st this) b')\<lparr>m_size := m_size (st rhs)\<rparr>)))
                 else
                   (case uninitialized_copy_n E (m_buffer (m_data (st rhs))) (m_size (st this))
                           (m_size (st rhs) - m_size (st this)) b (m_size (st this)) of
                      Threw e b' \<Rightarrow> Threw e (st(this := with_buffer (st this) b'))
                    | Undefined \<Rightarrow> Undefined
                    | Ok b' \<Rightarrow>
                        Ok (st(this := (with_buffer (st this) b')\<lparr>m_size := m_size (st rhs)\<rparr>))))))
      else Ok st)"

text \<open>
  \<open>Vector& operator=(Vector&& rhs) noexcept\<close>: three exchanges, in the order of the
  source, each reading and writing the store.
\<close>

definition move_assign_Vector :: "'a store \<Rightarrow> nat \<Rightarrow> nat \<Rightarrow> 'a store" where
  "move_assign_Vector st this rhs =
     (let b = m_buffer (m_data (st rhs));
          st1 = st(rhs := with_buffer (st rhs) []);
          st2 = st1(this := with_buffer (st1 this) b);
          c = m_capacity (m_data (st2 rhs));
          st3 = st2(rhs := (st2 rhs)\<lparr>m_data := (m_data (st2 rhs))\<lparr>m_capacity := 0\<rparr>\<rparr>);
          st4 = st3(this := (st3 this)\<lparr>m_data := (m_data (st3 this))\<lparr>m_capacity := c\<rparr>\<rparr>);
          n = m_size (st4 rhs);
          st5 = st4(rhs := (st4 rhs)\<lparr>m_size := 0\<rparr>)
      in st5(this := (st5 this)\<lparr>m_size := n\<rparr>))"

section \<open>The sequence of elements and the invariant\<close>

text \<open>The elements of a vector, in order: the values in the slots below \<open>size_\<close>.\<close>

definition elems :: "'a Vector \<Rightarrow> 'a list" where
  "elems v = map the (take (m_size v) (m_buffer (m_data v)))"

text \<open>
  \<open>live_prefix\<close>: the buffer has \<open>capacity_\<close> slots, \<open>size_\<close> is at most \<open>capacity_\<close> and every
  slot below \<open>size_\<close> holds an object. \<open>Vector_inv\<close> adds that every slot from \<open>size_\<close> on is
  raw memory.
\<close>

definition live_prefix :: "'a Vector \<Rightarrow> bool" where
  "live_prefix v \<longleftrightarrow>
     m_capacity (m_data v) = length (m_buffer (m_data v)) \<and>
     m_size v \<le> m_capacity (m_data v) \<and>
     list_all (\<lambda>s. s \<noteq> None) (take (m_size v) (m_buffer (m_data v)))"

definition Vector_inv :: "'a Vector \<Rightarrow> bool" where
  "Vector_inv v \<longleftrightarrow>
     live_prefix v \<and> list_all (\<lambda>s. s = None) (drop (m_size v) (m_buffer (m_data v)))"

text \<open>The vector that holds the elements \<open>xs\<close> and has \<open>k\<close> raw slots behind them.\<close>

definition vec :: "'a list \<Rightarrow> nat \<Rightarrow> 'a Vector" where
  "vec xs k =
     \<lparr>m_data = \<lparr>m_buffer = map Some xs @ replicate k None, m_capacity = length xs + k\<rparr>,
      m_size = length xs\<rparr>"

text \<open>An element type none of whose operations throws, with an allocator that never fails.\<close>

definition never_throws :: "'a env \<Rightarrow> bool" where
  "never_throws E \<longleftrightarrow>
     (\<forall>x. \<not> copy_ctor_throws E x) \<and> (\<forall>x. \<not> move_ctor_throws E x) \<and>
     (\<forall>x. \<not> copy_assign_throws E x) \<and> (\<forall>x. \<not> move_assign_throws E x) \<and>
     value_init E \<noteq> None \<and> (\<forall>n. \<not> alloc_fails E n)"

text \<open>
  The value that the arguments of \<open>Emplace\<close> denote in a vector of elements \<open>xs\<close>, whether
  the constructor they select throws, whether they move an element out of the vector
  itself, and the elements once the new object is constructed.
\<close>

fun src_value :: "'a list \<Rightarrow> 'a src \<Rightarrow> 'a option" where
  "src_value xs (Outside x) = Some x"
| "src_value xs (Inside i) = (if i < length xs then Some (xs ! i) else None)"

fun arg_value :: "'a list \<Rightarrow> 'a args \<Rightarrow> 'a option" where
  "arg_value xs (CopyOf s) = src_value xs s"
| "arg_value xs (MoveOf s) = src_value xs s"
| "arg_value xs (Direct r) = r"

fun arg_throws :: "'a env \<Rightarrow> 'a args \<Rightarrow> 'a \<Rightarrow> bool" where
  "arg_throws E (CopyOf s) x = copy_ctor_throws E x"
| "arg_throws E (MoveOf s) x = move_ctor_throws E x"
| "arg_throws E (Direct r) x = False"

fun steals :: "'a args \<Rightarrow> bool" where
  "steals (MoveOf (Inside i)) = True"
| "steals a = False"

fun after_args :: "'a env \<Rightarrow> 'a list \<Rightarrow> 'a args \<Rightarrow> 'a list" where
  "after_args E xs (MoveOf (Inside i)) = xs[i := moved_from E (xs ! i)]"
| "after_args E xs a = xs"

text \<open>
  The elements after a relocation by move was stopped by the first throwing move
  constructor: the elements before it are left moved-from.
\<close>

definition moved_prefix :: "'a env \<Rightarrow> 'a list \<Rightarrow> 'a list" where
  "moved_prefix E xs =
     map (moved_from E) (takeWhile (\<lambda>y. \<not> move_ctor_throws E y) xs)
       @ dropWhile (\<lambda>y. \<not> move_ctor_throws E y) xs"

section \<open>Element types for the examples\<close>

text \<open>
  All four have \<open>sizeof(T) = 4\<close>. \<open>T_plain\<close> behaves like \<open>int\<close>. \<open>T_move_only\<close> cannot be copied, its move constructor
  throws on the value 2 and leaves 0 behind. \<open>T_throwing_copy\<close> can be copied, and its
  copy and move constructors throw on the value 2. \<open>T_throwing_assign\<close> has a move
  assignment that throws on the value 2.
\<close>

definition T_plain :: "nat env" where
  "T_plain =
     \<lparr>nothrow_move_constructible = True, copy_constructible = True,
      copy_ctor_throws = (\<lambda>x. False), move_ctor_throws = (\<lambda>x. False),
      copy_assign_throws = (\<lambda>x. False), move_assign_throws = (\<lambda>x. False),
      value_init = Some 0, moved_from = (\<lambda>x. x), sizeof_T = 4, alloc_fails = (\<lambda>n. False)\<rparr>"

definition T_move_only :: "nat env" where
  "T_move_only =
     \<lparr>nothrow_move_constructible = False, copy_constructible = False,
      copy_ctor_throws = (\<lambda>x. False), move_ctor_throws = (\<lambda>x. x = 2),
      copy_assign_throws = (\<lambda>x. False), move_assign_throws = (\<lambda>x. False),
      value_init = Some 0, moved_from = (\<lambda>x. 0), sizeof_T = 4, alloc_fails = (\<lambda>n. False)\<rparr>"

definition T_throwing_copy :: "nat env" where
  "T_throwing_copy =
     \<lparr>nothrow_move_constructible = False, copy_constructible = True,
      copy_ctor_throws = (\<lambda>x. x = 2), move_ctor_throws = (\<lambda>x. x = 2),
      copy_assign_throws = (\<lambda>x. x = 2), move_assign_throws = (\<lambda>x. False),
      value_init = Some 0, moved_from = (\<lambda>x. 0), sizeof_T = 4, alloc_fails = (\<lambda>n. False)\<rparr>"

definition T_throwing_assign :: "nat env" where
  "T_throwing_assign =
     \<lparr>nothrow_move_constructible = True, copy_constructible = True,
      copy_ctor_throws = (\<lambda>x. False), move_ctor_throws = (\<lambda>x. False),
      copy_assign_throws = (\<lambda>x. False), move_assign_throws = (\<lambda>x. x = 2),
      value_init = Some 0, moved_from = (\<lambda>x. 0), sizeof_T = 4, alloc_fails = (\<lambda>n. False)\<rparr>"

text \<open>
  The elements of the target of a copy assignment after \<open>std::copy_n\<close> was stopped by the
  first throwing copy assignment: the elements before it are assigned, the others are
  the old ones.
\<close>

definition assigned_prefix :: "'a env \<Rightarrow> 'a list \<Rightarrow> 'a list \<Rightarrow> 'a list" where
  "assigned_prefix E ys xs =
     takeWhile (\<lambda>y. \<not> copy_assign_throws E y) ys
       @ drop (length (takeWhile (\<lambda>y. \<not> copy_assign_throws E y) ys)) xs"

text \<open>A store with the vector 1, 2, 3 (capacity 4) at address 0 and the vector 4, 5 at address 1.\<close>

definition two_vectors :: "nat store" where
  "two_vectors = (\<lambda>a. Vector_default)(0 := vec [1, 2, 3] 1, 1 := vec [4, 5] 0)"

text \<open>
  An append, as a caller writes it: \<open>PushBack(const T&)\<close>, \<open>PushBack(T&&)\<close> or
  \<open>EmplaceBack(args...)\<close>. \<open>run_append\<close> is one such call and \<open>run_appends\<close> a sequence
  of them, one after the other; the sequence ends at the first exception.
\<close>

datatype 'a append_call = ByPushBack "'a src" | ByPushBack_rvalue "'a src" | ByEmplaceBack "'a args"

fun run_append :: "'a env \<Rightarrow> 'a Vector \<Rightarrow> 'a append_call \<Rightarrow> ('a Vector, 'a Vector) outcome" where
  "run_append E v (ByPushBack val) = PushBack E v val"
| "run_append E v (ByPushBack_rvalue val) = PushBack_rvalue E v val"
| "run_append E v (ByEmplaceBack args) =
     (case EmplaceBack E v args of
        Ok (v', r) \<Rightarrow> Ok v'
      | Threw e v' \<Rightarrow> Threw e v'
      | Undefined \<Rightarrow> Undefined)"

fun run_appends :: "'a env \<Rightarrow> 'a Vector \<Rightarrow> 'a append_call list \<Rightarrow> ('a Vector, 'a Vector) outcome" where
  "run_appends E v [] = Ok v"
| "run_appends E v (a # as) =
     (case run_append E v a of
        Ok v' \<Rightarrow> run_appends E v' as
      | Threw e v' \<Rightarrow> Threw e v'
      | Undefined \<Rightarrow> Undefined)"

text \<open>
  The constructor arguments of an append. \<open>refs_valid n as\<close>: every reference to an
  element of the vector among the arguments of the appends \<open>as\<close> is to an element that
  the vector, of \<open>n\<close> elements at the start, has when that append is made.
  \<open>appended E xs as\<close>: the elements that the appends \<open>as\<close> are to leave in a vector of
  elements \<open>xs\<close>, each append adding the value of its arguments at the end; \<open>None\<close> when
  the arguments of some append have no value.
\<close>

fun args_of :: "'a append_call \<Rightarrow> 'a args" where
  "args_of (ByPushBack val) = CopyOf val"
| "args_of (ByPushBack_rvalue val) = MoveOf val"
| "args_of (ByEmplaceBack args) = args"

fun src_in :: "nat \<Rightarrow> 'a src \<Rightarrow> bool" where
  "src_in n (Outside x) = True"
| "src_in n (Inside i) = (i < n)"

fun args_in :: "nat \<Rightarrow> 'a args \<Rightarrow> bool" where
  "args_in n (CopyOf s) = src_in n s"
| "args_in n (MoveOf s) = src_in n s"
| "args_in n (Direct r) = True"

fun refs_valid :: "nat \<Rightarrow> 'a append_call list \<Rightarrow> bool" where
  "refs_valid n [] = True"
| "refs_valid n (a # as) = (args_in n (args_of a) \<and> refs_valid (Suc n) as)"

fun appended :: "'a env \<Rightarrow> 'a list \<Rightarrow> 'a append_call list \<Rightarrow> 'a list option" where
  "appended E xs [] = Some xs"
| "appended E xs (a # as) =
     (case arg_value xs (args_of a) of
        None \<Rightarrow> None
      | Some t \<Rightarrow> appended E (after_args E xs (args_of a) @ [t]) as)"

section \<open>The algorithms on buffers of a known shape\<close>

lemma destroy_n_append:
  "destroy_n (pre @ map Some ys @ post) (length pre) (length ys)
     = Some (pre @ replicate (length ys) None @ post)"
proof (induction ys arbitrary: pre)
  case Nil
  show ?case by simp
next
  case (Cons y ys)
  have "destroy_n ((pre @ [None]) @ map Some ys @ post) (length (pre @ [None])) (length ys)
          = Some ((pre @ [None]) @ replicate (length ys) None @ post)"
    by (rule Cons.IH)
  then show ?case by (simp add: replicate_app_Cons_same)
qed

lemma uninitialized_copy_n_append:
  "uninitialized_copy_n E (sp @ map Some ys @ sq) (length sp) (length ys)
       (dp @ replicate (length ys) None @ dq) (length dp)
     = (if \<exists>y\<in>set ys. copy_ctor_throws E y
        then Threw ElemExn (dp @ replicate (length ys) None @ dq)
        else Ok (dp @ map Some ys @ dq))"
proof (induction ys arbitrary: sp dp)
  case Nil
  show ?case by simp
next
  case (Cons y ys)
  have "uninitialized_copy_n E ((sp @ [Some y]) @ map Some ys @ sq) (length (sp @ [Some y]))
          (length ys) ((dp @ [Some y]) @ replicate (length ys) None @ dq) (length (dp @ [Some y]))
        = (if \<exists>y\<in>set ys. copy_ctor_throws E y
           then Threw ElemExn ((dp @ [Some y]) @ replicate (length ys) None @ dq)
           else Ok ((dp @ [Some y]) @ map Some ys @ dq))"
    by (rule Cons.IH)
  then show ?case by (simp add: replicate_app_Cons_same)
qed

lemma uninitialized_move_n_append:
  "uninitialized_move_n E (sp @ map Some ys @ sq) (length sp) (length ys)
       (dp @ replicate (length ys) None @ dq) (length dp)
     = (if \<exists>y\<in>set ys. move_ctor_throws E y
        then Threw ElemExn
               (sp @ map Some (map (moved_from E) (takeWhile (\<lambda>y. \<not> move_ctor_throws E y) ys)
                                @ dropWhile (\<lambda>y. \<not> move_ctor_throws E y) ys) @ sq,
                dp @ replicate (length ys) None @ dq)
        else Ok (sp @ map Some (map (moved_from E) ys) @ sq, dp @ map Some ys @ dq))"
proof (induction ys arbitrary: sp dp)
  case Nil
  show ?case by simp
next
  case (Cons y ys)
  have "uninitialized_move_n E ((sp @ [Some (moved_from E y)]) @ map Some ys @ sq)
          (length (sp @ [Some (moved_from E y)])) (length ys)
          ((dp @ [Some y]) @ replicate (length ys) None @ dq) (length (dp @ [Some y]))
        = (if \<exists>y\<in>set ys. move_ctor_throws E y
           then Threw ElemExn
                  ((sp @ [Some (moved_from E y)])
                     @ map Some (map (moved_from E) (takeWhile (\<lambda>y. \<not> move_ctor_throws E y) ys)
                                   @ dropWhile (\<lambda>y. \<not> move_ctor_throws E y) ys) @ sq,
                   (dp @ [Some y]) @ replicate (length ys) None @ dq)
           else Ok ((sp @ [Some (moved_from E y)]) @ map Some (map (moved_from E) ys) @ sq,
                    (dp @ [Some y]) @ map Some ys @ dq))"
    by (rule Cons.IH)
  then show ?case by (simp add: replicate_app_Cons_same)
qed

lemma uninitialized_value_construct_n_append:
  "uninitialized_value_construct_n E (pre @ replicate n None @ post) (length pre) n
     = (case value_init E of
          None \<Rightarrow> (if n = 0 then Ok (pre @ post) else Threw ElemExn (pre @ replicate n None @ post))
        | Some x \<Rightarrow> Ok (pre @ replicate n (Some x) @ post))"
proof (induction n arbitrary: pre)
  case 0
  show ?case by (simp split: option.splits)
next
  case (Suc n)
  show ?case
  proof (cases "value_init E")
    case None
    then show ?thesis by simp
  next
    case (Some x)
    have "uninitialized_value_construct_n E ((pre @ [Some x]) @ replicate n None @ post)
            (length (pre @ [Some x])) n = Ok ((pre @ [Some x]) @ replicate n (Some x) @ post)"
      using Suc.IH [of "pre @ [Some x]"] Some by simp
    with Some show ?thesis by (simp add: replicate_app_Cons_same)
  qed
qed

lemma copy_n_append:
  "length zs = length ys \<Longrightarrow>
   copy_n E (sp @ map Some ys @ sq) (length sp) (length ys) (dp @ map Some zs @ dq) (length dp)
     = (if \<exists>y\<in>set ys. copy_assign_throws E y
        then Threw ElemExn
               (dp @ map Some (takeWhile (\<lambda>y. \<not> copy_assign_throws E y) ys
                     @ drop (length (takeWhile (\<lambda>y. \<not> copy_assign_throws E y) ys)) zs) @ dq)
        else Ok (dp @ map Some ys @ dq))"
proof (induction ys arbitrary: sp dp zs)
  case Nil
  then show ?case by simp
next
  case (Cons y ys)
  then obtain z zs' where zs: "zs = z # zs'" and len: "length zs' = length ys"
    by (cases zs) auto
  have "copy_n E ((sp @ [Some y]) @ map Some ys @ sq) (length (sp @ [Some y])) (length ys)
          ((dp @ [Some y]) @ map Some zs' @ dq) (length (dp @ [Some y]))
        = (if \<exists>y\<in>set ys. copy_assign_throws E y
           then Threw ElemExn
                  ((dp @ [Some y]) @ map Some (takeWhile (\<lambda>y. \<not> copy_assign_throws E y) ys
                     @ drop (length (takeWhile (\<lambda>y. \<not> copy_assign_throws E y) ys)) zs') @ dq)
           else Ok ((dp @ [Some y]) @ map Some ys @ dq))"
    by (rule Cons.IH [OF len])
  then show ?case by (simp add: zs)
qed

subsection \<open>Move assignment inside one buffer\<close>

text \<open>A move assignment never changes which slots hold an object.\<close>

lemma move_assign_shape:
  "move_assign E b d s = Ok b' \<or> move_assign E b d s = Threw e b'
     \<Longrightarrow> map (\<lambda>x. x = None) b' = map (\<lambda>x. x = None) b"
  by (auto simp: move_assign_def nth_list_update split: if_splits option.splits
           intro!: nth_equalityI)

lemma move_loop_shape:
  "move_loop E b f n d = Ok b' \<or> move_loop E b f n d = Threw e b'
     \<Longrightarrow> map (\<lambda>x. x = None) b' = map (\<lambda>x. x = None) b"
proof (induction n arbitrary: b f d)
  case 0
  then show ?case by simp
next
  case (Suc n)
  show ?case
  proof (cases "move_assign E b d f")
    case (Ok b1)
    with Suc.prems have "move_loop E b1 (Suc f) n (Suc d) = Ok b'
        \<or> move_loop E b1 (Suc f) n (Suc d) = Threw e b'"
      by simp
    then have "map (\<lambda>x. x = None) b' = map (\<lambda>x. x = None) b1"
      by (rule Suc.IH)
    moreover have "map (\<lambda>x. x = None) b1 = map (\<lambda>x. x = None) b"
      using Ok move_assign_shape [of E b d f b1] by simp
    ultimately show ?thesis by simp
  next
    case (Threw e1 b1)
    with Suc.prems have "b' = b1" by simp
    with Threw show ?thesis using move_assign_shape [of E b d f b' e1] by simp
  next
    case Undefined
    with Suc.prems show ?thesis by simp
  qed
qed

lemma move_backward_loop_shape:
  "move_backward_loop E b n l d = Ok b' \<or> move_backward_loop E b n l d = Threw e b'
     \<Longrightarrow> map (\<lambda>x. x = None) b' = map (\<lambda>x. x = None) b"
proof (induction n arbitrary: b l d)
  case 0
  then show ?case by simp
next
  case (Suc n)
  from Suc.prems have pos: "0 < l" "0 < d"
    by (auto split: if_splits)
  show ?case
  proof (cases "move_assign E b (d - 1) (l - 1)")
    case (Ok b1)
    with Suc.prems pos have "move_backward_loop E b1 n (l - 1) (d - 1) = Ok b'
        \<or> move_backward_loop E b1 n (l - 1) (d - 1) = Threw e b'"
      by simp
    then have "map (\<lambda>x. x = None) b' = map (\<lambda>x. x = None) b1"
      by (rule Suc.IH)
    moreover have "map (\<lambda>x. x = None) b1 = map (\<lambda>x. x = None) b"
      using Ok move_assign_shape [of E b "d - 1" "l - 1" b1] by simp
    ultimately show ?thesis by simp
  next
    case (Threw e1 b1)
    with Suc.prems pos have "b' = b1" by simp
    with Threw show ?thesis using move_assign_shape [of E b "d - 1" "l - 1" b' e1] by simp
  next
    case Undefined
    with Suc.prems pos show ?thesis by simp
  qed
qed

lemma move_assign_forward:
  "move_assign E (pre @ Some x # Some y # post) (length pre) (Suc (length pre))
     = (if move_assign_throws E y then Threw ElemExn (pre @ Some x # Some y # post)
        else Ok (pre @ Some y # Some (moved_from E y) # post))"
  by (simp add: move_assign_def nth_append list_update_append)

lemma move_assign_backward:
  "move_assign E (pre @ Some y # Some z # post) (Suc (length pre)) (length pre)
     = (if move_assign_throws E y then Threw ElemExn (pre @ Some y # Some z # post)
        else Ok (pre @ Some (moved_from E y) # Some y # post))"
  by (simp add: move_assign_def nth_append list_update_append)

lemma move_loop_append:
  "\<forall>y\<in>set ys. \<not> move_assign_throws E y \<Longrightarrow>
   move_loop E (pre @ Some x # map Some ys @ post) (Suc (length pre)) (length ys) (length pre)
     = Ok (pre @ map Some ys @ Some (if ys = [] then x else moved_from E (last ys)) # post)"
proof (induction ys arbitrary: pre x)
  case Nil
  show ?case by simp
next
  case (Cons y ys)
  have "move_loop E ((pre @ [Some y]) @ Some (moved_from E y) # map Some ys @ post)
          (Suc (length (pre @ [Some y]))) (length ys) (length (pre @ [Some y]))
        = Ok ((pre @ [Some y]) @ map Some ys
                @ Some (if ys = [] then moved_from E y else moved_from E (last ys)) # post)"
    using Cons.prems by (intro Cons.IH) simp
  with Cons.prems show ?case by (simp add: move_assign_forward)
qed

lemma move_loop_throws:
  "\<exists>y\<in>set ys. move_assign_throws E y \<Longrightarrow>
   \<exists>b'. move_loop E (pre @ Some x # map Some ys @ post) (Suc (length pre)) (length ys) (length pre)
     = Threw ElemExn b'"
proof (induction ys arbitrary: pre x)
  case Nil
  then show ?case by simp
next
  case (Cons y ys)
  show ?case
  proof (cases "move_assign_throws E y")
    case True
    then show ?thesis by (simp add: move_assign_forward)
  next
    case False
    with Cons.prems have "\<exists>y\<in>set ys. move_assign_throws E y" by simp
    then have "\<exists>b'. move_loop E ((pre @ [Some y]) @ Some (moved_from E y) # map Some ys @ post)
              (Suc (length (pre @ [Some y]))) (length ys) (length (pre @ [Some y])) = Threw ElemExn b'"
      by (rule Cons.IH)
    with False show ?thesis by (simp add: move_assign_forward)
  qed
qed

lemma move_backward_loop_append:
  "\<forall>y\<in>set ys. \<not> move_assign_throws E y \<Longrightarrow>
   move_backward_loop E (pre @ map Some ys @ Some z # post) (length ys)
       (length pre + length ys) (Suc (length pre + length ys))
     = Ok (pre @ Some (if ys = [] then z else moved_from E (hd ys)) # map Some ys @ post)"
proof (induction ys arbitrary: z post rule: rev_induct)
  case Nil
  show ?case by simp
next
  case (snoc y ys)
  have step: "move_assign E ((pre @ map Some ys) @ Some y # Some z # post)
                 (Suc (length (pre @ map Some ys))) (length (pre @ map Some ys))
              = Ok ((pre @ map Some ys) @ Some (moved_from E y) # Some y # post)"
    using snoc.prems by (simp only: move_assign_backward) simp
  have "move_backward_loop E (pre @ map Some ys @ Some (moved_from E y) # (Some y # post))
          (length ys) (length pre + length ys) (Suc (length pre + length ys))
        = Ok (pre @ Some (if ys = [] then moved_from E y else moved_from E (hd ys))
                # map Some ys @ (Some y # post))"
    using snoc.prems by (intro snoc.IH) simp
  with step show ?case by (cases ys) simp_all
qed

lemma move_backward_loop_throws:
  "\<exists>y\<in>set ys. move_assign_throws E y \<Longrightarrow>
   \<exists>b'. move_backward_loop E (pre @ map Some ys @ Some z # post) (length ys)
       (length pre + length ys) (Suc (length pre + length ys)) = Threw ElemExn b'"
proof (induction ys arbitrary: z post rule: rev_induct)
  case Nil
  then show ?case by simp
next
  case (snoc y ys)
  have step: "move_assign E ((pre @ map Some ys) @ Some y # Some z # post)
                 (Suc (length (pre @ map Some ys))) (length (pre @ map Some ys))
     = (if move_assign_throws E y then Threw ElemExn ((pre @ map Some ys) @ Some y # Some z # post)
        else Ok ((pre @ map Some ys) @ Some (moved_from E y) # Some y # post))"
    by (rule move_assign_backward)
  consider (loud) "move_assign_throws E y" | (quiet) "\<not> move_assign_throws E y"
    by blast
  then show ?case
  proof cases
    case loud
    with step show ?thesis by simp
  next
    case quiet
    with snoc.prems have "\<exists>y\<in>set ys. move_assign_throws E y" by simp
    then have "\<exists>b'. move_backward_loop E (pre @ map Some ys @ Some (moved_from E y) # (Some y # post))
              (length ys) (length pre + length ys) (Suc (length pre + length ys)) = Threw ElemExn b'"
      by (rule snoc.IH)
    with quiet step show ?thesis by simp
  qed
qed

section \<open>Vectors that satisfy the invariant\<close>

lemma vec_sel [simp]:
  "m_size (vec xs k) = length xs"
  "m_buffer (m_data (vec xs k)) = map Some xs @ replicate k None"
  "m_capacity (m_data (vec xs k)) = length xs + k"
  "Capacity (vec xs k) = length xs + k"
  "Size (vec xs k) = length xs"
  by (simp_all add: vec_def Capacity_def Size_def)

lemma elems_vec [simp]: "elems (vec xs k) = xs"
  by (simp add: elems_def comp_def)

lemma Vector_inv_vec [simp]: "Vector_inv (vec xs k)"
  by (simp add: Vector_inv_def live_prefix_def list_all_iff)

lemma live_prefix_vec [simp]: "live_prefix (vec xs k)"
  using Vector_inv_vec [of xs k] by (simp only: Vector_inv_def)

lemma all_live_map: "list_all (\<lambda>s. s \<noteq> None) ys \<Longrightarrow> map Some (map the ys) = ys"
  by (induction ys) auto

lemma all_raw_replicate: "list_all (\<lambda>s. s = None) ys \<Longrightarrow> ys = replicate (length ys) None"
  by (induction ys) auto

lemma Vector_inv_is_vec:
  assumes "Vector_inv v"
  shows "v = vec (elems v) (Capacity v - m_size v)"
proof -
  let ?b = "m_buffer (m_data v)"
  let ?n = "m_size v"
  from assms have cap: "m_capacity (m_data v) = length ?b" and le: "?n \<le> length ?b"
    and live: "list_all (\<lambda>s. s \<noteq> None) (take ?n ?b)"
    and raw: "list_all (\<lambda>s. s = None) (drop ?n ?b)"
    by (simp_all add: Vector_inv_def live_prefix_def)
  have "map Some (elems v) = take ?n ?b"
    unfolding elems_def using live by (rule all_live_map)
  moreover have "drop ?n ?b = replicate (length ?b - ?n) None"
    using all_raw_replicate [OF raw] by simp
  ultimately have "map Some (elems v) @ replicate (length ?b - ?n) None = ?b"
    by (metis append_take_drop_id)
  moreover have "length (elems v) = ?n"
    using le by (simp add: elems_def)
  ultimately show ?thesis
    using cap le by (simp add: vec_def Capacity_def)
qed

lemma with_buffer_vec [simp]:
  "length ys = length xs \<Longrightarrow> with_buffer (vec xs k) (map Some ys @ replicate k None) = vec ys k"
  by (simp add: with_buffer_def vec_def)

lemma uninitialized_copy_n_fresh:
  "length xs \<le> n \<Longrightarrow>
   uninitialized_copy_n E (map Some xs @ sq) 0 (length xs) (replicate n None) 0
     = (if \<exists>y\<in>set xs. copy_ctor_throws E y then Threw ElemExn (replicate n None)
        else Ok (map Some xs @ replicate (n - length xs) None))"
  using uninitialized_copy_n_append [of E "[]" xs sq "[]" "replicate (n - length xs) None"]
  by (simp add: replicate_add [symmetric])

lemma uninitialized_move_n_fresh:
  "length xs \<le> n \<Longrightarrow>
   uninitialized_move_n E (map Some xs @ sq) 0 (length xs) (replicate n None) 0
     = (if \<exists>y\<in>set xs. move_ctor_throws E y
        then Threw ElemExn
               (map Some (map (moved_from E) (takeWhile (\<lambda>y. \<not> move_ctor_throws E y) xs)
                           @ dropWhile (\<lambda>y. \<not> move_ctor_throws E y) xs) @ sq,
                replicate n None)
        else Ok (map Some (map (moved_from E) xs) @ sq, map Some xs @ replicate (n - length xs) None))"
  using uninitialized_move_n_append [of E "[]" xs sq "[]" "replicate (n - length xs) None"]
  by (simp add: replicate_add [symmetric])

lemma destroy_n_front:
  "destroy_n (map Some xs @ post) 0 (length xs) = Some (replicate (length xs) None @ post)"
  using destroy_n_append [of "[]" xs post] by simp

lemma length_moved_prefix [simp]: "length (moved_prefix E xs) = length xs"
proof -
  have "length (takeWhile (\<lambda>y. \<not> move_ctor_throws E y) xs)
          + length (dropWhile (\<lambda>y. \<not> move_ctor_throws E y) xs) = length xs"
    by (metis length_append takeWhile_dropWhile_id)
  then show ?thesis by (simp add: moved_prefix_def)
qed

text \<open>
  The arithmetic of \<open>size_t\<close> is evaluated on integers, in binary.
\<close>

lemma Allocate_code [code]:
  "Allocate E n =
     (if n \<noteq> 0 then
        (if alloc_fails E n then Threw BadAlloc ()
         else Ok (replicate (nat (((int n * int (sizeof_T E)) mod 2 ^ 64) div int (sizeof_T E))) None))
      else Ok [])"
  by (simp add: Allocate_def size_t_mod_def nat_div_distrib nat_mod_distrib nat_mult_distrib nat_power_eq
      zdiv_int zmod_int)

lemma fits_code [code]:
  "fits E n \<longleftrightarrow> 0 < sizeof_T E \<and> int n * int (sizeof_T E) < 2 ^ 64"
proof -
  have "n * sizeof_T E < 2 ^ 64 \<longleftrightarrow> int (n * sizeof_T E) < int (2 ^ 64)"
    by (simp only: of_nat_less_iff)
  then show ?thesis
    by (simp add: fits_def size_t_mod_def)
qed

lemma fits_slots:
  assumes "fits E n"
  shows "((n * sizeof_T E) mod size_t_mod) div sizeof_T E = n"
  using assms by (simp add: fits_def)

lemma RawMemory_ctor_fits:
  assumes "fits E n"
  shows "RawMemory_ctor E n = RawMemory_ctor_fitting E n"
  by (simp add: RawMemory_ctor_def Allocate_def RawMemory_ctor_fitting_def fits_slots [OF assms])

text \<open>
  The capacities that the container computes from the size of a buffer in memory: the
  constructor is the one of the source.
\<close>

lemma RawMemory_ctor_own_capacity:
  assumes "in_memory E n"
  shows "RawMemory_ctor E n = RawMemory_ctor_fitting E n"
    and "RawMemory_ctor E (if n > 0 then n * 2 else 1)
           = RawMemory_ctor_fitting E (if n > 0 then n * 2 else 1)"
proof -
  from assms have "fits E n"
    by (simp add: in_memory_def fits_def size_t_mod_def)
  then show "RawMemory_ctor E n = RawMemory_ctor_fitting E n"
    by (rule RawMemory_ctor_fits)
  from assms have "fits E (if n > 0 then n * 2 else 1)"
    by (simp add: in_memory_def fits_def size_t_mod_def)
  then show "RawMemory_ctor E (if n > 0 then n * 2 else 1)
           = RawMemory_ctor_fitting E (if n > 0 then n * 2 else 1)"
    by (rule RawMemory_ctor_fits)
qed

lemma Reserve_vec:
  assumes fit: "fits E n"
  shows "Reserve E (vec xs k) n =
     (if n \<le> length xs + k then Ok (vec xs k)
      else if alloc_fails E n then Threw BadAlloc (vec xs k)
      else if nothrow_move_constructible E \<or> \<not> copy_constructible E then
        (if \<exists>x\<in>set xs. move_ctor_throws E x then Threw ElemExn (vec (moved_prefix E xs) k)
         else Ok (vec xs (n - length xs)))
      else
        (if \<exists>x\<in>set xs. copy_ctor_throws E x then Threw ElemExn (vec xs k)
         else Ok (vec xs (n - length xs))))"
proof -
  have destroyed: "destroy_n (map (Some \<circ> moved_from E) xs @ replicate k None) 0 (length xs)
      = Some (replicate (length xs) None @ replicate k None)"
    using destroy_n_front [of "map (moved_from E) xs" "replicate k None"] by simp
  have destroyed': "destroy_n (map Some xs @ replicate k None) 0 (length xs)
      = Some (replicate (length xs) None @ replicate k None)"
    by (rule destroy_n_front)
  show ?thesis
    by (simp add: Reserve_def RawMemory_ctor_fits [OF fit] RawMemory_ctor_fitting_def
        CopyOrMoveData_def uninitialized_copy_n_fresh uninitialized_move_n_fresh destroyed
        destroyed' RawMemory_Swap_def moved_prefix_def [symmetric])
qed

section \<open>\<open>Reserve\<close>\<close>

text \<open>
  What an exception of \<open>Reserve\<close> leaves behind, for every requested capacity.
\<close>

lemma uninitialized_move_n_Threw:
  "uninitialized_move_n E (sp @ map Some ys @ sq) (length sp) (length ys) dst d = Threw e (src', dst')
   \<Longrightarrow> e = ElemExn \<and> (\<exists>y\<in>set ys. move_ctor_throws E y) \<and>
       src' = sp @ map Some (moved_prefix E ys) @ sq"
proof (induction ys arbitrary: sp dst d dst')
  case Nil
  then show ?case by simp
next
  case (Cons y ys)
  have nth: "(sp @ Some y # map Some ys @ sq) ! length sp = Some y"
    by simp
  have upd: "(sp @ Some y # map Some ys @ sq)[length sp := Some (moved_from E y)]
      = (sp @ [Some (moved_from E y)]) @ map Some ys @ sq"
    by simp
  show ?case
  proof (cases "move_ctor_throws E y")
    case True
    with Cons.prems show ?thesis
      by (auto simp: moved_prefix_def split: if_splits)
  next
    case False
    from Cons.prems False obtain dst1 where
      rec: "uninitialized_move_n E ((sp @ [Some (moved_from E y)]) @ map Some ys @ sq)
              (length (sp @ [Some (moved_from E y)])) (length ys) (dst[d := Some y]) (Suc d)
            = Threw e (src', dst1)"
      by (auto simp: nth upd simp del: list_update_append split: if_splits outcome.splits)
    from Cons.IH [OF rec] False show ?thesis
      by (simp add: moved_prefix_def)
  qed
qed

lemma Reserve_Threw:
  assumes thrown: "Reserve E (vec xs k) n = Threw e v'"
  shows "(e = BadAlloc \<and> v' = vec xs k) \<or>
         (e = ElemExn \<and> \<not> nothrow_move_constructible E \<and> copy_constructible E \<and> v' = vec xs k) \<or>
         (e = ElemExn \<and> (nothrow_move_constructible E \<or> \<not> copy_constructible E) \<and>
          (\<exists>x\<in>set xs. move_ctor_throws E x) \<and> v' = vec (moved_prefix E xs) k)"
proof (cases "nothrow_move_constructible E \<or> \<not> copy_constructible E")
  case True
  have moved: "uninitialized_move_n E (map Some xs @ replicate k None) 0 (length xs) dst 0
        = Threw e' (old, new)
      \<Longrightarrow> e' = ElemExn \<and> (\<exists>y\<in>set xs. move_ctor_throws E y) \<and>
          old = map Some (moved_prefix E xs) @ replicate k None" for dst e' old new
    using uninitialized_move_n_Threw [of E "[]" xs "replicate k None" dst 0 e' old new]
    by simp
  from thrown True show ?thesis
    by (auto simp: Reserve_def RawMemory_ctor_def Allocate_def CopyOrMoveData_def
        split: if_splits outcome.splits option.splits prod.splits dest!: moved)
next
  case False
  from thrown False show ?thesis
    by (cases e) (auto simp: Reserve_def RawMemory_ctor_def Allocate_def CopyOrMoveData_def
        split: if_splits outcome.splits option.splits prod.splits)
qed

text \<open>
  C1. On a vector that satisfies the invariant: when a constructor of \<open>T\<close> or the
  allocation throws in \<open>Reserve\<close>, whatever the requested capacity, the length and the
  capacity are unchanged and the invariant holds, and when \<open>T\<close> is
  nothrow-move-constructible or copy-constructible the vector is exactly as before the
  call (no element lost or duplicated); a nothrow-move-constructible \<open>T\<close> raises no
  exception of its own. For a requested capacity whose size in bytes is a value of
  \<open>size_t\<close>, \<open>Reserve\<close> has defined behaviour; a call that has to grow the buffer returns
  exactly when the allocation succeeds and no constructor of the relocation throws, and
  the relocation runs the move constructor when \<open>T\<close> is nothrow-move-constructible or not
  copy-constructible and the copy constructor otherwise; when the call returns, the
  elements and the length are unchanged.
\<close>

theorem Reserve_strong_guarantee:
  assumes wf: "well_formed E" and inv: "Vector_inv v"
  shows "(fits E n \<longrightarrow>
      Reserve E v n \<noteq> Undefined \<and>
      ((\<exists>v'. Reserve E v n = Ok v') \<longleftrightarrow>
         n \<le> Capacity v \<or>
         \<not> alloc_fails E n \<and>
         (if nothrow_move_constructible E \<or> \<not> copy_constructible E
          then \<forall>x\<in>set (elems v). \<not> move_ctor_throws E x
          else \<forall>x\<in>set (elems v). \<not> copy_ctor_throws E x)) \<and>
      (\<forall>v'. Reserve E v n = Ok v' \<longrightarrow>
         elems v' = elems v \<and> Size v' = Size v \<and> Capacity v' = max n (Capacity v) \<and>
         Vector_inv v')) \<and>
    (\<forall>e v'. Reserve E v n = Threw e v' \<longrightarrow>
       Size v' = Size v \<and> Capacity v' = Capacity v \<and> Vector_inv v' \<and>
       (nothrow_move_constructible E \<or> copy_constructible E \<longrightarrow> v' = v) \<and>
       (e = ElemExn \<longrightarrow> \<not> nothrow_move_constructible E))"
proof -
  obtain xs k where v: "v = vec xs k"
    using Vector_inv_is_vec [OF inv] by blast
  have quiet: "nothrow_move_constructible E \<Longrightarrow> \<forall>x\<in>set xs. \<not> move_ctor_throws E x"
    using wf by (simp add: well_formed_def)
  have fitting: "Reserve E v n \<noteq> Undefined \<and>
      ((\<exists>v'. Reserve E v n = Ok v') \<longleftrightarrow>
         n \<le> Capacity v \<or>
         \<not> alloc_fails E n \<and>
         (if nothrow_move_constructible E \<or> \<not> copy_constructible E
          then \<forall>x\<in>set (elems v). \<not> move_ctor_throws E x
          else \<forall>x\<in>set (elems v). \<not> copy_ctor_throws E x)) \<and>
      (\<forall>v'. Reserve E v n = Ok v' \<longrightarrow>
         elems v' = elems v \<and> Size v' = Size v \<and> Capacity v' = max n (Capacity v) \<and>
         Vector_inv v')"
    if fit: "fits E n"
    unfolding v Reserve_vec [OF fit] using quiet
    by (auto simp: max_def)
  have thrown: "Size v' = Size v \<and> Capacity v' = Capacity v \<and> Vector_inv v' \<and>
       (nothrow_move_constructible E \<or> copy_constructible E \<longrightarrow> v' = v) \<and>
       (e = ElemExn \<longrightarrow> \<not> nothrow_move_constructible E)"
    if "Reserve E v n = Threw e v'" for e v'
    using Reserve_Threw [OF that [unfolded v]] quiet
    by (auto simp: v Size_def)
  from fitting thrown show ?thesis
    by blast
qed

text \<open>An element type with a throwing copy constructor: the vector is unchanged.\<close>

theorem Reserve_strong_guarantee_witness:
  "well_formed T_throwing_copy \<and> Vector_inv (vec [1, 2, 3] 0) \<and> fits T_throwing_copy 5 \<and>
   Reserve T_throwing_copy (vec [1, 2, 3] 0) 5 = Threw ElemExn (vec [1, 2, 3] 0) \<and>
   copy_constructible T_throwing_copy \<and> \<not> nothrow_move_constructible T_throwing_copy \<and>
   copy_ctor_throws T_throwing_copy 2"
proof -
  have wf: "well_formed T_throwing_copy"
    by (simp add: well_formed_def T_throwing_copy_def)
  have inv: "Vector_inv (vec [1, 2, 3::nat] 0)"
    by code_simp
  have fit: "fits T_throwing_copy 5"
    by (simp add: fits_def size_t_mod_def T_throwing_copy_def)
  have thrown: "Reserve T_throwing_copy (vec [1, 2, 3] 0) 5 = Threw ElemExn (vec [1, 2, 3] 0)"
    unfolding Reserve_vec [OF fit] by (simp add: T_throwing_copy_def)
  from Reserve_strong_guarantee [OF wf inv, of 5] fit thrown
  have "\<not> nothrow_move_constructible T_throwing_copy"
    by simp
  with wf inv fit thrown show ?thesis
    by (simp add: T_throwing_copy_def)
qed

text \<open>
  For a type that can only be moved and whose move constructor throws, the element moved
  before the exception is left moved-from: the elements are not those before the call.
\<close>

theorem Reserve_move_only_counterexample:
  "Reserve T_move_only (vec [1, 2, 3] 0) 5 = Threw ElemExn (vec [0, 2, 3] 0) \<and>
   elems (vec [0, 2, 3::nat] 0) \<noteq> elems (vec [1, 2, 3] 0)"
proof -
  have fit: "fits T_move_only 5"
    by (simp add: fits_def size_t_mod_def T_move_only_def)
  show ?thesis
    unfolding Reserve_vec [OF fit]
    by (simp add: T_move_only_def moved_prefix_def)
qed

text \<open>
  A requested capacity whose size in bytes is not a value of \<open>size_t\<close>: the block is too
  small for the capacity that the vector records. A call that returns leaves a vector
  whose \<open>capacity_\<close> exceeds its buffer; with more elements than the block has room for,
  the relocation writes behind the block.
\<close>

lemma uninitialized_copy_n_length:
  "uninitialized_copy_n E src first n dst d = Ok dst' \<Longrightarrow> length dst' = length dst"
proof (induction n arbitrary: first dst d)
  case 0
  then show ?case by simp
next
  case (Suc n)
  then show ?case
    by (auto split: if_splits option.splits outcome.splits)
qed

lemma uninitialized_move_n_length:
  "uninitialized_move_n E src first n dst d = Ok (src', dst') \<Longrightarrow> length dst' = length dst"
proof (induction n arbitrary: src first dst d)
  case 0
  then show ?case by simp
next
  case (Suc n)
  then show ?case
    by (auto split: if_splits option.splits outcome.splits)
qed

lemma wrapped_slots:
  assumes "0 < sizeof_T E" and "size_t_mod \<le> n * sizeof_T E"
  shows "((n * sizeof_T E) mod size_t_mod) div sizeof_T E < n"
proof -
  have "0 < size_t_mod"
    by (simp add: size_t_mod_def)
  then have "(n * sizeof_T E) mod size_t_mod < size_t_mod"
    by simp
  with assms(2) have "(n * sizeof_T E) mod size_t_mod < n * sizeof_T E"
    by simp
  with assms(1) show ?thesis
    by (simp add: less_mult_imp_div_less)
qed

lemma Reserve_wraps:
  assumes size: "0 < sizeof_T E" and wrap: "size_t_mod \<le> n * sizeof_T E"
    and grow: "Capacity v < n" and ok: "Reserve E v n = Ok v'"
  shows "Capacity v' = n \<and> length (m_buffer (m_data v')) < n \<and> \<not> Vector_inv v'"
proof -
  define slots where "slots = ((n * sizeof_T E) mod size_t_mod) div sizeof_T E"
  have slots: "slots < n"
    unfolding slots_def by (rule wrapped_slots [OF size wrap])
  have moved: "CopyOrMoveData E src first count dst d = Ok (old, new) \<Longrightarrow> length new = length dst"
    for src first count dst d old new
    by (auto simp: CopyOrMoveData_def uninitialized_move_n_length
        split: if_splits outcome.splits dest: uninitialized_copy_n_length)
  from ok grow obtain old new where
    "CopyOrMoveData E (m_buffer (m_data v)) 0 (m_size v) (replicate slots None) 0 = Ok (old, new)"
    and v': "m_data v' = \<lparr>m_buffer = new, m_capacity = n\<rparr>"
    by (auto simp: Reserve_def RawMemory_ctor_def Allocate_def Capacity_def RawMemory_Swap_def
        slots_def split: if_splits outcome.splits option.splits)
  from moved [OF this(1)] have "length new = slots"
    by simp
  with slots v' show ?thesis
    by (simp add: Capacity_def Vector_inv_def live_prefix_def)
qed

lemma Reserve_overflow:
  "fits T_plain 3 \<and> \<not> fits T_plain (2 ^ 62 + 1) \<and>
   Reserve T_plain (vec [1, 2, 3] 0) (2 ^ 62 + 1) = Undefined"
  by (simp add: fits_def Reserve_def RawMemory_ctor_def Allocate_def size_t_mod_def T_plain_def
      CopyOrMoveData_def vec_def)

section \<open>Move construction\<close>

lemma Vector_default_vec: "Vector_default = vec [] 0"
  by (simp add: Vector_default_def RawMemory_default_def vec_def)

text \<open>
  C8. Move-constructing \<open>B\<close> from \<open>A\<close> gives \<open>B\<close> the length, the capacity and the elements
  of \<open>A\<close> (it is the vector \<open>A\<close> was); no operation of \<open>T\<close> runs and nothing can throw.
  \<open>A\<close> is left as a default-constructed vector: length 0, capacity 0, the invariant
  holds, its destructor destroys nothing, and an append to it behaves as on a new vector.
\<close>

theorem Vector_move_correct:
  "fst (Vector_move a) = a \<and>
   Size (fst (Vector_move a)) = Size a \<and>
   Capacity (fst (Vector_move a)) = Capacity a \<and>
   elems (fst (Vector_move a)) = elems a \<and>
   snd (Vector_move a) = Vector_default \<and>
   Size (snd (Vector_move a)) = 0 \<and>
   Capacity (snd (Vector_move a)) = 0 \<and>
   Vector_inv (snd (Vector_move a)) \<and>
   Vector_dtor (snd (Vector_move a)) = Some [] \<and>
   PushBack E (snd (Vector_move a)) (Outside x) =
     (if alloc_fails E 1 then Threw BadAlloc Vector_default
      else if copy_ctor_throws E x then Threw ElemExn Vector_default
      else Ok (vec [x] 0))"
proof -
  have moved: "Vector_move a = (a, Vector_default)"
    by (simp add: Vector_move_def RawMemory_move_def Vector_default_def RawMemory_default_def)
  have push: "PushBack E Vector_default (Outside x) =
     (if alloc_fails E 1 then Threw BadAlloc Vector_default
      else if copy_ctor_throws E x then Threw ElemExn Vector_default
      else Ok (vec [x] 0))"
    by (simp add: PushBack_def EmplaceBack_def Emplace_def EmplaceWithRealloc_def
        Vector_default_def RawMemory_default_def Capacity_def RawMemory_ctor_fitting_def
        with_buffer_def construct_at_def relocate_around_def CopyOrMoveData_def
        RawMemory_Swap_def vec_def)
  show ?thesis
    unfolding moved fst_conv snd_conv push
    by (simp add: Vector_default_vec Vector_dtor_def)
qed

section \<open>Self-assignment\<close>

text \<open>
  C10. Copy-assigning a vector to itself changes nothing: the store, and with it the
  length, the capacity and every element of the vector, is as before.
\<close>

theorem copy_assign_self:
  "copy_assign E st a a = Ok st"
  by (simp add: copy_assign_def)

section \<open>\<open>EmplaceWithRealloc\<close>\<close>

lemma construct_T_vec:
  "construct_T E (map Some xs @ replicate k None) args =
     (case arg_value xs args of
        None \<Rightarrow>
          (case args of
             Direct r \<Rightarrow> Threw ElemExn (map Some xs @ replicate k None)
           | _ \<Rightarrow> Undefined)
      | Some t \<Rightarrow>
          if arg_throws E args t then Threw ElemExn (map Some xs @ replicate k None)
          else Ok (map Some (after_args E xs args) @ replicate k None, t))"
proof (cases args)
  case (CopyOf s)
  then show ?thesis by (cases s) (simp_all add: nth_append)
next
  case (MoveOf s)
  then show ?thesis by (cases s) (simp_all add: nth_append list_update_append map_update)
next
  case (Direct r)
  then show ?thesis by (cases r) simp_all
qed

lemma length_after_args [simp]: "length (after_args E xs args) = length xs"
  by (induction E xs args rule: after_args.induct) simp_all

lemma after_args_keeps: "\<not> steals args \<Longrightarrow> after_args E xs args = xs"
  by (induction E xs args rule: after_args.induct) simp_all

lemma relocate_around_vec:
  "relocate_around E (map Some (as @ bs) @ replicate k None) (length as + length bs) (length as)
       (replicate (length as) None @ Some t # replicate (length bs) None @ replicate j None)
     = (if nothrow_move_constructible E \<or> \<not> copy_constructible E then
          (if \<exists>x\<in>set as. move_ctor_throws E x then
             Threw ElemExn
               (map Some (moved_prefix E as @ bs) @ replicate k None,
                replicate (length as) None @ None # replicate (length bs) None @ replicate j None)
           else if \<exists>x\<in>set bs. move_ctor_throws E x then
             Threw ElemExn
               (map Some (map (moved_from E) as @ moved_prefix E bs) @ replicate k None,
                replicate (length as) None @ Some t # replicate (length bs) None @ replicate j None)
           else Ok (map Some (map (moved_from E) (as @ bs)) @ replicate k None,
                    map Some (as @ t # bs) @ replicate j None))
        else
          (if \<exists>x\<in>set as. copy_ctor_throws E x then
             Threw ElemExn
               (map Some (as @ bs) @ replicate k None,
                replicate (length as) None @ None # replicate (length bs) None @ replicate j None)
           else if \<exists>x\<in>set bs. copy_ctor_throws E x then
             Threw ElemExn
               (map Some (as @ bs) @ replicate k None,
                replicate (length as) None @ Some t # replicate (length bs) None @ replicate j None)
           else Ok (map Some (as @ bs) @ replicate k None,
                    map Some (as @ t # bs) @ replicate j None)))"
proof -
  let ?tail = "Some t # replicate (length bs) None @ replicate j None"
  let ?old = "map Some as @ map Some bs @ replicate k None"
  let ?old' = "map (Some \<circ> moved_from E) as @ map Some bs @ replicate k None"
  have pc: "uninitialized_copy_n E ?old 0 (length as) (replicate (length as) None @ ?tail) 0
      = (if \<exists>y\<in>set as. copy_ctor_throws E y
         then Threw ElemExn (replicate (length as) None @ ?tail)
         else Ok (map Some as @ ?tail))"
    using uninitialized_copy_n_append [of E "[]" as "map Some bs @ replicate k None" "[]" ?tail]
    by simp
  have pm: "uninitialized_move_n E ?old 0 (length as) (replicate (length as) None @ ?tail) 0
      = (if \<exists>y\<in>set as. move_ctor_throws E y
         then Threw ElemExn (map Some (moved_prefix E as) @ map Some bs @ replicate k None,
                replicate (length as) None @ ?tail)
         else Ok (?old', map Some as @ ?tail))"
    using uninitialized_move_n_append [of E "[]" as "map Some bs @ replicate k None" "[]" ?tail]
    by (simp add: moved_prefix_def)
  have sc: "uninitialized_copy_n E ?old (length as) (length bs)
        (map Some as @ Some t # replicate (length bs) None @ replicate j None) (Suc (length as))
      = (if \<exists>y\<in>set bs. copy_ctor_throws E y
         then Threw ElemExn (map Some as @ ?tail)
         else Ok (map Some as @ Some t # map Some bs @ replicate j None))"
    using uninitialized_copy_n_append [of E "map Some as" bs "replicate k None"
        "map Some as @ [Some t]" "replicate j None"]
    by simp
  have sm: "uninitialized_move_n E ?old' (length as) (length bs)
        (map Some as @ Some t # replicate (length bs) None @ replicate j None) (Suc (length as))
      = (if \<exists>y\<in>set bs. move_ctor_throws E y
         then Threw ElemExn
                (map (Some \<circ> moved_from E) as @ map Some (moved_prefix E bs) @ replicate k None,
                 map Some as @ ?tail)
         else Ok (map (Some \<circ> moved_from E) as @ map (Some \<circ> moved_from E) bs @ replicate k None,
                  map Some as @ Some t # map Some bs @ replicate j None))"
    using uninitialized_move_n_append [of E "map (Some \<circ> moved_from E) as" bs "replicate k None"
        "map Some as @ [Some t]" "replicate j None"]
    by (simp add: moved_prefix_def)
  have d2: "destroy_n (map Some as @ ?tail) 0 (length as) = Some (replicate (length as) None @ ?tail)"
    by (rule destroy_n_front)
  show ?thesis
    by (simp add: relocate_around_def CopyOrMoveData_def pc pm sc sm d2 nth_append list_update_append)
qed

lemma moved_prefix_append:
  "moved_prefix E (as @ bs) =
     (if \<exists>x\<in>set as. move_ctor_throws E x then moved_prefix E as @ bs
      else map (moved_from E) as @ moved_prefix E bs)"
  by (auto simp: moved_prefix_def takeWhile_append dropWhile_append)

lemma moved_prefix_quiet:
  "\<forall>x\<in>set xs. \<not> move_ctor_throws E x \<Longrightarrow> moved_prefix E xs = map (moved_from E) xs"
  unfolding moved_prefix_def by (induction xs) simp_all

lemma construct_at_fresh:
  "construct_at (replicate (Suc (p + m)) None) p t = Some (replicate p None @ Some t # replicate m None)"
proof -
  have "replicate (Suc (p + m)) (None :: 'a option) = replicate p None @ None # replicate m None"
    by (simp add: replicate_add [symmetric] replicate_app_Cons_same)
  then show ?thesis
    by (simp add: construct_at_def list_update_append del: replicate_Suc)
qed

lemma EmplaceWithRealloc_vec:
  assumes p: "p \<le> length xs"
  shows "EmplaceWithRealloc E (vec xs k) p args =
    (if alloc_fails E (if 0 < length xs then length xs * 2 else 1) then Threw BadAlloc (vec xs k)
     else
       (case arg_value xs args of
          None \<Rightarrow> (case args of Direct r \<Rightarrow> Threw ElemExn (vec xs k) | _ \<Rightarrow> Undefined)
        | Some t \<Rightarrow>
            if arg_throws E args t then Threw ElemExn (vec xs k)
            else if nothrow_move_constructible E \<or> \<not> copy_constructible E then
              (if \<exists>x\<in>set (after_args E xs args). move_ctor_throws E x
               then Threw ElemExn (vec (moved_prefix E (after_args E xs args)) k)
               else Ok (vec (take p (after_args E xs args) @ t # drop p (after_args E xs args))
                          ((if 0 < length xs then length xs * 2 else 1) - Suc (length xs)), p))
            else
              (if \<exists>x\<in>set (after_args E xs args). copy_ctor_throws E x
               then Threw ElemExn (vec (after_args E xs args) k)
               else Ok (vec (take p (after_args E xs args) @ t # drop p (after_args E xs args))
                          ((if 0 < length xs then length xs * 2 else 1) - Suc (length xs)), p))))"
proof -
  define cap where "cap = (if 0 < length xs then length xs * 2 else 1)"
  define xs' where "xs' = after_args E xs args"
  define as where "as = take p xs'"
  define bs where "bs = drop p xs'"
  define j where "j = cap - Suc (length xs)"
  have len: "length xs' = length xs" "length as = p" "length as + length bs = length xs"
    and split: "xs' = as @ bs"
    using p by (simp_all add: xs'_def as_def bs_def)
  have cap: "cap = Suc (p + (length bs + j))"
    using len by (cases "length xs") (simp_all add: cap_def j_def)
  have placed: "construct_at (replicate cap None) p t
      = Some (replicate p None @ Some t # replicate (length bs) None @ replicate j None)"
    for t :: 'a
    unfolding cap using construct_at_fresh [of p "length bs + j" t]
    by (simp add: replicate_add)
  have relocated: "relocate_around E (map Some xs' @ replicate k None) (length xs) p
       (replicate p None @ Some t # replicate (length bs) None @ replicate j None)
     = (if nothrow_move_constructible E \<or> \<not> copy_constructible E then
          (if \<exists>x\<in>set xs'. move_ctor_throws E x
           then Threw ElemExn
               (map Some (moved_prefix E xs') @ replicate k None,
                replicate p None
                  @ (if \<exists>x\<in>set as. move_ctor_throws E x then None else Some t)
                  # replicate (length bs) None @ replicate j None)
           else Ok (map Some (map (moved_from E) xs') @ replicate k None,
                    map Some (as @ t # bs) @ replicate j None))
        else
          (if \<exists>x\<in>set xs'. copy_ctor_throws E x
           then Threw ElemExn
               (map Some xs' @ replicate k None,
                replicate p None
                  @ (if \<exists>x\<in>set as. copy_ctor_throws E x then None else Some t)
                  # replicate (length bs) None @ replicate j None)
           else Ok (map Some xs' @ replicate k None,
                    map Some (as @ t # bs) @ replicate j None)))"
    for t :: 'a
    using relocate_around_vec [of E as bs k t j] len
    unfolding split moved_prefix_append
    by (auto simp: moved_prefix_quiet)
  have d1: "destroy_n (map (Some \<circ> moved_from E) xs' @ replicate k None) 0 (length xs)
      = Some (replicate (length xs) None @ replicate k None)"
    using destroy_n_front [of "map (moved_from E) xs'" "replicate k None"] len by simp
  have d2: "destroy_n (map Some xs' @ replicate k None) 0 (length xs)
      = Some (replicate (length xs) None @ replicate k None)"
    using destroy_n_front [of xs' "replicate k None"] len by simp
  have final: "\<lparr>m_data = \<lparr>m_buffer = map Some as @ Some t # map Some bs @ replicate j None,
                          m_capacity = cap\<rparr>,
                m_size = Suc (length xs)\<rparr> = vec (as @ t # bs) j"
    for t :: 'a
    using len cap by (simp add: vec_def)
  have main: "EmplaceWithRealloc E (vec xs k) p args =
    (if alloc_fails E cap then Threw BadAlloc (vec xs k)
     else
       (case arg_value xs args of
          None \<Rightarrow> (case args of Direct r \<Rightarrow> Threw ElemExn (vec xs k) | _ \<Rightarrow> Undefined)
        | Some t \<Rightarrow>
            if arg_throws E args t then Threw ElemExn (vec xs k)
            else if nothrow_move_constructible E \<or> \<not> copy_constructible E then
              (if \<exists>x\<in>set xs'. move_ctor_throws E x
               then Threw ElemExn (vec (moved_prefix E xs') k)
               else Ok (vec (as @ t # bs) j, p))
            else
              (if \<exists>x\<in>set xs'. copy_ctor_throws E x
               then Threw ElemExn (vec xs' k)
               else Ok (vec (as @ t # bs) j, p))))"
  proof -
    have body: "EmplaceWithRealloc E (vec xs k) p args =
      (case RawMemory_ctor_fitting E cap of
         Threw e u \<Rightarrow> Threw e (vec xs k)
       | Undefined \<Rightarrow> Undefined
       | Ok new_data \<Rightarrow>
           (case construct_T E (map Some xs @ replicate k None) args of
              Threw e old \<Rightarrow> Threw e (with_buffer (vec xs k) old)
            | Undefined \<Rightarrow> Undefined
            | Ok (old, x) \<Rightarrow>
                (case construct_at (m_buffer new_data) p x of
                   None \<Rightarrow> Undefined
                 | Some new \<Rightarrow>
                     (case relocate_around E old (length xs) p new of
                        Threw e (old', new') \<Rightarrow> Threw e (with_buffer (vec xs k) old')
                      | Undefined \<Rightarrow> Undefined
                      | Ok (old', new') \<Rightarrow>
                          (case destroy_n old' 0 (length xs) of
                             None \<Rightarrow> Undefined
                           | Some old'' \<Rightarrow>
                               Ok (\<lparr>m_data = \<lparr>m_buffer = new', m_capacity = m_capacity new_data\<rparr>,
                                    m_size = length xs + 1\<rparr>, p))))))"
      unfolding EmplaceWithRealloc_def Let_def vec_sel cap_def [symmetric] RawMemory_Swap_def
      by (simp split: outcome.splits option.splits prod.splits)
    have alloc: "RawMemory_ctor_fitting E cap =
        (if alloc_fails E cap then Threw BadAlloc ()
         else Ok \<lparr>m_buffer = replicate cap None, m_capacity = cap\<rparr>)"
      by (simp add: RawMemory_ctor_fitting_def cap_def)
    show ?thesis
    proof (cases "arg_value xs args")
      case None
      then show ?thesis
        unfolding body alloc by (simp add: construct_T_vec split: args.splits)
    next
      case (Some t)
      then show ?thesis
        unfolding body alloc
        by (simp add: construct_T_vec xs'_def [symmetric] placed relocated d1 d2 len final)
    qed
  qed
  then show ?thesis
    unfolding j_def as_def bs_def xs'_def cap_def .
qed

section \<open>\<open>EmplaceWithoutRealloc\<close>\<close>

lemma move_construct_adjacent:
  "move_construct E (pre @ Some l # None # post) (Suc (length pre)) (length pre)
     = (if move_ctor_throws E l then Threw ElemExn (pre @ Some l # None # post)
        else Ok (pre @ Some (moved_from E l) # Some l # post))"
  by (simp add: move_construct_def nth_append list_update_append)

lemma assign_temp_at:
  "assign_temp E (pre @ Some y # post) (length pre) t
     = (if move_assign_throws E t then Threw ElemExn (pre @ Some y # post)
        else Ok (pre @ Some t # post))"
  by (simp add: assign_temp_def nth_append list_update_append)

lemma with_buffer_vec_Suc [simp]:
  "length ys = length xs \<Longrightarrow>
   with_buffer (vec xs (Suc k)) (map Some ys @ None # replicate k None) = vec ys (Suc k)"
  using with_buffer_vec [of ys xs "Suc k"] by simp

lemma EmplaceWithoutRealloc_end:
  "EmplaceWithoutRealloc E (vec xs (Suc k)) (length xs) args =
     (case arg_value xs args of
        None \<Rightarrow> (case args of Direct r \<Rightarrow> Threw ElemExn (vec xs (Suc k)) | _ \<Rightarrow> Undefined)
      | Some t \<Rightarrow>
          if arg_throws E args t then Threw ElemExn (vec xs (Suc k))
          else Ok (vec (after_args E xs args @ [t]) k, length xs))"
proof -
  have placed: "construct_at (map Some ys @ None # replicate k None) (length xs) t
      = Some (map Some ys @ Some t # replicate k None)" if "length ys = length xs" for ys and t :: 'a
    using that by (simp add: construct_at_def list_update_append)
  have final: "with_buffer (vec xs (Suc k)) (map Some ys @ Some t # replicate k None)
        \<lparr>m_size := Suc (length xs)\<rparr> = vec (ys @ [t]) k" if "length ys = length xs" for ys and t :: 'a
    using that by (simp add: with_buffer_def vec_def)
  show ?thesis
    unfolding EmplaceWithoutRealloc_def Let_def vec_sel construct_T_vec
    by (simp add: placed final split: option.splits args.splits)
qed

lemma shape_of_vec:
  "map (\<lambda>s. s = None) (map Some ys @ replicate k None)
     = replicate (length ys) False @ replicate k True"
  by (induction ys) simp_all

lemma EmplaceWithoutRealloc_middle:
  assumes p: "p < length xs"
    and val: "arg_value xs args = Some t"
    and quiet: "\<not> arg_throws E args t"
  shows "move_ctor_throws E (last (after_args E xs args)) \<Longrightarrow>
         EmplaceWithoutRealloc E (vec xs (Suc k)) p args
           = Threw ElemExn (vec (after_args E xs args) (Suc k))"
    (is "?stuck \<Longrightarrow> ?unchanged")
    and "\<not> move_ctor_throws E (last (after_args E xs args)) \<Longrightarrow>
         (\<exists>y\<in>set (butlast (drop p (after_args E xs args))). move_assign_throws E y)
              \<or> move_assign_throws E t \<Longrightarrow>
         \<exists>b'. EmplaceWithoutRealloc E (vec xs (Suc k)) p args
                 = Threw ElemExn (with_buffer (vec xs (Suc k)) b')
             \<and> map (\<lambda>s. s = None) b' = replicate (Suc (length xs)) False @ replicate k True"
    (is "?calm \<Longrightarrow> ?loud \<Longrightarrow> ?broken")
    and "\<not> move_ctor_throws E (last (after_args E xs args)) \<Longrightarrow>
         \<forall>y\<in>set (butlast (drop p (after_args E xs args))). \<not> move_assign_throws E y \<Longrightarrow>
         \<not> move_assign_throws E t \<Longrightarrow>
         EmplaceWithoutRealloc E (vec xs (Suc k)) p args
           = Ok (vec (take p (after_args E xs args) @ t # drop p (after_args E xs args)) k, p)"
    (is "?calm \<Longrightarrow> ?silent \<Longrightarrow> ?mute \<Longrightarrow> ?done")
proof -
  define xs' where "xs' = after_args E xs args"
  define as where "as = take p xs'"
  define mid where "mid = butlast (drop p xs')"
  define l where "l = last xs'"
  let ?v = "vec xs (Suc k)"
  have len: "length xs' = length xs"
    by (simp add: xs'_def)
  have "drop p xs' \<noteq> []"
    using p len by simp
  then have "butlast (drop p xs') @ [last (drop p xs')] = drop p xs'"
    by (rule append_butlast_last_id)
  moreover have "last (drop p xs') = last xs'"
    using p len by (simp add: last_drop)
  ultimately have tail: "drop p xs' = mid @ [l]"
    unfolding mid_def l_def by simp
  have split: "xs' = as @ mid @ [l]"
    using append_take_drop_id [of p xs'] unfolding as_def tail by simp
  have las: "length as = p"
    using p len by (simp add: as_def)
  have n: "length xs = Suc (length as + length mid)"
    using len unfolding split by simp
  let ?b0 = "map Some xs' @ replicate (Suc k) None"
  let ?b1 = "map Some as @ map Some mid @ Some (moved_from E l) # Some l # replicate k None"
  let ?b2 = "map Some as @ Some (if mid = [] then moved_from E l else moved_from E (hd mid))
               # map Some mid @ Some l # replicate k None"
  let ?b3 = "map Some as @ Some t # map Some mid @ Some l # replicate k None"
  have ne: "xs \<noteq> []" "p \<noteq> length xs"
    using p by auto
  have built: "construct_T E (map Some xs @ replicate (Suc k) None) args = Ok (?b0, t)"
    unfolding construct_T_vec xs'_def using val quiet by simp
  have body: "EmplaceWithoutRealloc E ?v p args =
      (case move_construct E ?b0 (length xs) (length xs - 1) of
         Threw e b1 \<Rightarrow> Threw e (with_buffer ?v b1)
       | Undefined \<Rightarrow> Undefined
       | Ok b1 \<Rightarrow>
           (case move_backward E b1 p (length xs - 1) (length xs) of
              Threw e b2 \<Rightarrow> Threw e (with_buffer ?v b2)
            | Undefined \<Rightarrow> Undefined
            | Ok b2 \<Rightarrow>
                (case assign_temp E b2 p t of
                   Threw e b3 \<Rightarrow> Threw e (with_buffer ?v b3)
                 | Undefined \<Rightarrow> Undefined
                 | Ok b3 \<Rightarrow> Ok ((with_buffer ?v b3)\<lparr>m_size := length xs + 1\<rparr>, p))))"
    unfolding EmplaceWithoutRealloc_def Let_def vec_sel built using ne by simp
  have b0: "?b0 = (map Some as @ map Some mid) @ Some l # None # replicate k None"
    unfolding split by simp
  have mc: "move_construct E ?b0 (length xs) (length xs - 1)
      = (if move_ctor_throws E l then Threw ElemExn ?b0 else Ok ?b1)"
    unfolding b0 n
    using move_construct_adjacent [of E "map Some as @ map Some mid" l "replicate k None"]
    by simp
  have mb_def: "move_backward E ?b1 p (length xs - 1) (length xs)
      = move_backward_loop E (map Some as @ map Some mid @ Some (moved_from E l) # (Some l # replicate k None))
          (length mid) (length (map Some as) + length mid) (Suc (length (map Some as) + length mid))"
    unfolding move_backward_def n las [symmetric] by simp
  have mb_ok: "move_backward E ?b1 p (length xs - 1) (length xs) = Ok ?b2"
    if "\<forall>y\<in>set mid. \<not> move_assign_throws E y"
    unfolding mb_def by (rule move_backward_loop_append [OF that])
  have mb_throws: "\<exists>b'. move_backward E ?b1 p (length xs - 1) (length xs) = Threw ElemExn b'
      \<and> map (\<lambda>s. s = None) b' = map (\<lambda>s. s = None) ?b1"
    if loud: "\<exists>y\<in>set mid. move_assign_throws E y"
  proof -
    obtain b' where thrown: "move_backward E ?b1 p (length xs - 1) (length xs) = Threw ElemExn b'"
      unfolding mb_def using move_backward_loop_throws [OF loud] by blast
    then have "move_backward_loop E ?b1 (length mid) (length (map Some as) + length mid)
          (Suc (length (map Some as) + length mid)) = Threw ElemExn b'"
      unfolding mb_def .
    then have "map (\<lambda>s. s = None) b' = map (\<lambda>s. s = None) ?b1"
      using move_backward_loop_shape [of E ?b1 "length mid" _ _ b' ElemExn] by blast
    with thrown show ?thesis by blast
  qed
  have at: "assign_temp E ?b2 p t
      = (if move_assign_throws E t then Threw ElemExn ?b2 else Ok ?b3)"
    unfolding las [symmetric]
    using assign_temp_at [of E "map Some as" _ "map Some mid @ Some l # replicate k None" t]
    by simp
  have final: "(with_buffer ?v ?b3)\<lparr>m_size := length xs + 1\<rparr> = vec (as @ t # mid @ [l]) k"
    using n by (simp add: with_buffer_def vec_def)
  have "?b1 = map Some (as @ mid @ [moved_from E l, l]) @ replicate k None"
    by simp
  then have shape1: "map (\<lambda>s. s = None) ?b1 = replicate (Suc (length xs)) False @ replicate k True"
    unfolding n by (simp only: shape_of_vec) simp
  have "?b2 = map Some (as @ (if mid = [] then moved_from E l else moved_from E (hd mid)) # mid @ [l])
                @ replicate k None"
    by simp
  then have shape2: "map (\<lambda>s. s = None) ?b2 = replicate (Suc (length xs)) False @ replicate k True"
    unfolding n by (simp only: shape_of_vec) simp
  have unchanged: "with_buffer ?v ?b0 = vec xs' (Suc k)"
    using len by (simp add: with_buffer_def vec_def)
  have result: "take p xs' @ t # drop p xs' = as @ t # mid @ [l]"
    unfolding tail as_def by simp
  have sets: "set (butlast (drop p xs')) = set mid"
    by (simp add: mid_def)
  show ?unchanged if ?stuck
    using that unchanged
    unfolding xs'_def [symmetric] l_def [symmetric] body mc by simp
  show ?done if ?calm and ?silent and ?mute
    using that mb_ok at final unchanged
    unfolding xs'_def [symmetric] l_def [symmetric] sets result body mc by simp
  show ?broken if calm: ?calm and loud: ?loud
  proof (cases "\<exists>y\<in>set mid. move_assign_throws E y")
    case True
    from mb_throws [OF True] obtain b' where
      "move_backward E ?b1 p (length xs - 1) (length xs) = Threw ElemExn b'"
      and "map (\<lambda>s. s = None) b' = map (\<lambda>s. s = None) ?b1"
      by blast
    with calm show ?thesis
      unfolding body mc xs'_def [symmetric] l_def [symmetric] shape1 [symmetric]
      by auto
  next
    case False
    with loud have "move_assign_throws E t"
      unfolding xs'_def [symmetric] sets by blast
    with False calm show ?thesis
      unfolding body mc xs'_def [symmetric] l_def [symmetric] shape2 [symmetric]
      using mb_ok at by auto
  qed
qed

section \<open>\<open>Emplace\<close>\<close>

lemma Emplace_vec_full:
  "Emplace E (vec xs 0) p args = EmplaceWithRealloc E (vec xs 0) p args"
  by (simp add: Emplace_def)

lemma Emplace_vec_room:
  "Emplace E (vec xs (Suc k)) p args = EmplaceWithoutRealloc E (vec xs (Suc k)) p args"
  by (simp add: Emplace_def)

lemma never_throws_args:
  "never_throws E \<Longrightarrow> \<not> arg_throws E args t"
  by (cases args) (simp_all add: never_throws_def)

text \<open>What a call of \<open>Emplace\<close> that returns has done.\<close>

lemma Emplace_Ok:
  assumes p: "p \<le> length xs" and ok: "Emplace E (vec xs k) p args = Ok (v', it)"
  shows "\<exists>t. arg_value xs args = Some t \<and> it = p \<and>
           v' = vec (take p (after_args E xs args) @ t # drop p (after_args E xs args))
                  (if k = 0 then (if 0 < length xs then length xs * 2 else 1) - Suc (length xs)
                   else k - 1)"
proof (cases k)
  case 0
  from ok show ?thesis
    unfolding 0 Emplace_vec_full EmplaceWithRealloc_vec [OF p]
    by (auto split: if_splits option.splits args.splits)
next
  case (Suc k')
  show ?thesis
  proof (cases "p = length xs")
    case True
    from ok show ?thesis
      unfolding Suc Emplace_vec_room True EmplaceWithoutRealloc_end
      by (auto split: if_splits option.splits args.splits)
  next
    case False
    with p have less: "p < length xs" by simp
    have ne: "xs \<noteq> []" using less by auto
    obtain t where val: "arg_value xs args = Some t" and quiet: "\<not> arg_throws E args t"
      using ok less ne unfolding Suc Emplace_vec_room EmplaceWithoutRealloc_def Let_def vec_sel construct_T_vec
      by (auto split: if_splits option.splits args.splits)
    note middle = EmplaceWithoutRealloc_middle [OF less val quiet, of k']
    show ?thesis
    proof (cases "move_ctor_throws E (last (after_args E xs args))")
      case True
      with middle(1) ok show ?thesis
        unfolding Suc Emplace_vec_room by simp
    next
      case calm: False
      show ?thesis
      proof (cases "(\<exists>y\<in>set (butlast (drop p (after_args E xs args))). move_assign_throws E y)
              \<or> move_assign_throws E t")
        case True
        from middle(2) [OF calm True] ok show ?thesis
          unfolding Suc Emplace_vec_room by auto
      next
        case False
        then have "EmplaceWithoutRealloc E (vec xs (Suc k')) p args
           = Ok (vec (take p (after_args E xs args) @ t # drop p (after_args E xs args)) k', p)"
          using middle(3) [OF calm] by blast
        with ok val show ?thesis
          unfolding Suc Emplace_vec_room by auto
      qed
    qed
  qed
qed

text \<open>A call of \<open>Emplace\<close> at a position of the vector has defined behaviour.\<close>

lemma Emplace_defined:
  assumes p: "p \<le> length xs" and val: "arg_value xs args \<noteq> None \<or> args = Direct None"
  shows "Emplace E (vec xs k) p args \<noteq> Undefined"
proof (cases k)
  case 0
  from val show ?thesis
    unfolding 0 Emplace_vec_full EmplaceWithRealloc_vec [OF p]
    by (auto split: if_splits option.splits args.splits)
next
  case (Suc k')
  show ?thesis
  proof (cases "arg_value xs args")
    case None
    with val have "args = Direct None" by simp
    then show ?thesis
      unfolding Suc Emplace_vec_room EmplaceWithoutRealloc_def Let_def vec_sel construct_T_vec
      by simp
  next
    case (Some t)
    show ?thesis
    proof (cases "arg_throws E args t")
      case True
      with Some show ?thesis
        unfolding Suc Emplace_vec_room EmplaceWithoutRealloc_def Let_def vec_sel construct_T_vec
        by simp
    next
      case quiet: False
      show ?thesis
      proof (cases "p = length xs")
        case True
        with Some quiet show ?thesis
          unfolding Suc Emplace_vec_room True EmplaceWithoutRealloc_end by simp
      next
        case False
        with p have less: "p < length xs" by simp
        note middle = EmplaceWithoutRealloc_middle [OF less Some quiet, of k']
        show ?thesis
        proof (cases "move_ctor_throws E (last (after_args E xs args))")
          case True
          with middle(1) show ?thesis
            unfolding Suc Emplace_vec_room by simp
        next
          case calm: False
          show ?thesis
          proof (cases "(\<exists>y\<in>set (butlast (drop p (after_args E xs args))). move_assign_throws E y)
              \<or> move_assign_throws E t")
            case True
            from middle(2) [OF calm True] show ?thesis
              unfolding Suc Emplace_vec_room by auto
          next
            case False
            then show ?thesis
              using middle(3) [OF calm] unfolding Suc Emplace_vec_room by auto
          qed
        qed
      qed
    qed
  qed
qed

text \<open>When nothing throws, \<open>Emplace\<close> returns.\<close>

lemma Emplace_returns:
  assumes p: "p \<le> length xs" and val: "arg_value xs args = Some t" and quiet: "never_throws E"
  shows "\<exists>v'. Emplace E (vec xs k) p args = Ok (v', p)"
proof -
  have q: "\<not> arg_throws E args t" "\<And>x. \<not> move_ctor_throws E x" "\<And>x. \<not> copy_ctor_throws E x"
    "\<And>x. \<not> move_assign_throws E x" "\<And>n. \<not> alloc_fails E n"
    using quiet never_throws_args [OF quiet] by (simp_all add: never_throws_def)
  show ?thesis
  proof (cases k)
    case 0
    show ?thesis
      unfolding 0 Emplace_vec_full EmplaceWithRealloc_vec [OF p] using val q by simp
  next
    case (Suc k')
    show ?thesis
    proof (cases "p = length xs")
      case True
      show ?thesis
        unfolding Suc Emplace_vec_room True EmplaceWithoutRealloc_end using val q by simp
    next
      case False
      with p have less: "p < length xs" by simp
      show ?thesis
        unfolding Suc Emplace_vec_room
        using EmplaceWithoutRealloc_middle(3) [OF less val q(1), of k'] q by simp
    qed
  qed
qed

section \<open>Insertion\<close>

lemma at_vec:
  "at (vec xs k) i = (if i < length xs then Some (xs ! i) else None)"
  by (simp add: at_def nth_append)

lemma never_throws_T_plain: "never_throws T_plain"
  by (simp add: never_throws_def T_plain_def)

text \<open>
  C5. In a vector of length \<open>n\<close> that satisfies the invariant, inserting the value \<open>V\<close> at a
  position \<open>p \<le> n\<close>, by \<open>Emplace\<close> (and so by \<open>Insert\<close>), with or without reallocation, has
  defined behaviour and returns when nothing throws. When it returns, the vector has length
  \<open>n + 1\<close>, its elements are the old ones before \<open>p\<close>, then \<open>V\<close>, then the old ones from \<open>p\<close>
  on, element \<open>p\<close> is \<open>V\<close>, and the iterator returned is the position \<open>p\<close> of the new
  element. \<open>V\<close> is the value the arguments denote; they do not move an element out of the
  vector itself.
\<close>

theorem Emplace_inserts:
  assumes inv: "Vector_inv v" and p: "p \<le> m_size v"
    and val: "arg_value (elems v) args = Some V" and own: "\<not> steals args"
  shows "Insert E v p val = Emplace E v p (CopyOf val) \<and>
         Insert_rvalue E v p val = Emplace E v p (MoveOf val) \<and>
         Emplace E v p args \<noteq> Undefined \<and>
         (never_throws E \<longrightarrow> (\<exists>v'. Emplace E v p args = Ok (v', p))) \<and>
         (\<forall>v' it. Emplace E v p args = Ok (v', it) \<longrightarrow>
            Size v' = Size v + 1 \<and>
            elems v' = take p (elems v) @ V # drop p (elems v) \<and>
            at v' p = Some V \<and> it = p \<and> Vector_inv v')"
proof -
  obtain xs k where v: "v = vec xs k"
    using Vector_inv_is_vec [OF inv] by blast
  have p': "p \<le> length xs" and val': "arg_value xs args = Some V"
    using p val by (simp_all add: v)
  have "Emplace E (vec xs k) p args \<noteq> Undefined"
    using Emplace_defined [OF p'] val' by simp
  moreover have "\<exists>v'. Emplace E (vec xs k) p args = Ok (v', p)" if "never_throws E"
    using Emplace_returns [OF p' val' that] .
  moreover have "Size v' = Size (vec xs k) + 1 \<and>
            elems v' = take p xs @ V # drop p xs \<and>
            at v' p = Some V \<and> it = p \<and> Vector_inv v'"
    if "Emplace E (vec xs k) p args = Ok (v', it)" for v' it
    using Emplace_Ok [OF p' that] val' p' after_args_keeps [OF own, of E xs]
    by (auto simp: at_vec nth_append)
  ultimately show ?thesis
    unfolding v by (simp add: Insert_def Insert_rvalue_def)
qed

text \<open>Inserting 9 at position 1 of the vector 1, 2, 3 with one free slot.\<close>

theorem Emplace_inserts_witness:
  "Vector_inv (vec [1, 2, 3] 1) \<and> (1::nat) \<le> m_size (vec [1, 2, 3::nat] 1) \<and>
   arg_value (elems (vec [1, 2, 3] 1)) (CopyOf (Outside 9)) = Some (9::nat) \<and>
   \<not> steals (CopyOf (Outside (9::nat))) \<and> never_throws T_plain \<and>
   Emplace T_plain (vec [1, 2, 3] 1) 1 (CopyOf (Outside 9)) = Ok (vec [1, 9, 2, 3] 0, 1) \<and>
   elems (vec [1, 9, 2, 3::nat] 0) = take 1 (elems (vec [1, 2, 3] 1)) @ 9 # drop 1 (elems (vec [1, 2, 3] 1)) \<and>
   at (vec [1, 9, 2, 3::nat] 0) 1 = Some 9"
proof -
  have inv: "Vector_inv (vec [1, 2, 3::nat] 1)"
    by code_simp
  have p: "(1::nat) \<le> m_size (vec [1, 2, 3::nat] 1)"
    by code_simp
  have val: "arg_value (elems (vec [1, 2, 3] 1)) (CopyOf (Outside 9)) = Some (9::nat)"
    by code_simp
  have own: "\<not> steals (CopyOf (Outside (9::nat)))"
    by simp
  have quiet: "never_throws T_plain"
    by (simp add: never_throws_def T_plain_def)
  have run: "Emplace T_plain (vec [1, 2, 3] 1) 1 (CopyOf (Outside 9)) = Ok (vec [1, 9, 2, 3] 0, 1)"
    by code_simp
  from Emplace_inserts [OF inv p val own, of T_plain] run
  have "elems (vec [1, 9, 2, 3::nat] 0)
          = take 1 (elems (vec [1, 2, 3] 1)) @ 9 # drop 1 (elems (vec [1, 2, 3] 1))
        \<and> at (vec [1, 9, 2, 3::nat] 0) 1 = Some 9"
    by simp
  with inv p val own quiet run show ?thesis
    by simp
qed

text \<open>
  C9. Inserting, without reallocation, a reference to the element at index \<open>i\<close> of the vector
  itself at a position \<open>p \<le> i\<close>: the call has defined behaviour, returns when nothing
  throws, and when it returns the element at \<open>p\<close> is the value that was at \<open>i\<close> before
  the call, the other elements keep their order, and the capacity is unchanged. When the
  reference is passed as an rvalue, the element at \<open>p\<close> is again the value that was at
  \<open>i\<close>.
\<close>

theorem Insert_own_element:
  assumes inv: "Vector_inv v" and room: "m_size v < Capacity v"
    and pi: "p \<le> i" and i: "i < m_size v"
  shows "Insert E v p (Inside i) \<noteq> Undefined \<and>
         (never_throws E \<longrightarrow> (\<exists>v'. Insert E v p (Inside i) = Ok (v', p))) \<and>
         (\<forall>v' it. Insert E v p (Inside i) = Ok (v', it) \<longrightarrow>
            at v' p = Some (elems v ! i) \<and>
            elems v' = take p (elems v) @ (elems v ! i) # drop p (elems v) \<and>
            it = p \<and> Capacity v' = Capacity v) \<and>
         (\<forall>v' it. Insert_rvalue E v p (Inside i) = Ok (v', it) \<longrightarrow>
            at v' p = Some (elems v ! i) \<and> Size v' = Size v + 1 \<and>
            it = p \<and> Capacity v' = Capacity v)"
proof -
  obtain xs k where v: "v = vec xs k"
    using Vector_inv_is_vec [OF inv] by blast
  from room obtain k' where k: "k = Suc k'"
    unfolding v by (cases k) simp_all
  have p: "p \<le> length xs" and val: "arg_value xs (CopyOf (Inside i)) = Some (xs ! i)"
    and val': "arg_value xs (MoveOf (Inside i)) = Some (xs ! i)"
    using pi i by (simp_all add: v)
  have "Emplace E (vec xs k) p (CopyOf (Inside i)) \<noteq> Undefined"
    using Emplace_defined [OF p] val by simp
  moreover have "\<exists>v'. Emplace E (vec xs k) p (CopyOf (Inside i)) = Ok (v', p)" if "never_throws E"
    using Emplace_returns [OF p val that] .
  moreover have "at v' p = Some (xs ! i) \<and> elems v' = take p xs @ (xs ! i) # drop p xs \<and> it = p
        \<and> Capacity v' = Capacity (vec xs k)"
    if "Emplace E (vec xs k) p (CopyOf (Inside i)) = Ok (v', it)" for v' it
    using Emplace_Ok [OF p that] val p
    by (auto simp: at_vec nth_append k)
  moreover have "at v' p = Some (xs ! i) \<and> Size v' = Size (vec xs k) + 1 \<and> it = p
        \<and> Capacity v' = Capacity (vec xs k)"
    if "Emplace E (vec xs k) p (MoveOf (Inside i)) = Ok (v', it)" for v' it
    using Emplace_Ok [OF p that] val' p
    by (auto simp: at_vec nth_append k)
  ultimately show ?thesis
    unfolding v Insert_def Insert_rvalue_def by simp
qed

text \<open>Inserting \<open>v[2]\<close> at the front of the vector 1, 2, 3.\<close>

theorem Insert_own_element_witness:
  "Vector_inv (vec [1, 2, 3] 1) \<and> m_size (vec [1, 2, 3::nat] 1) < Capacity (vec [1, 2, 3::nat] 1) \<and>
   (0::nat) \<le> 2 \<and> 2 < m_size (vec [1, 2, 3::nat] 1) \<and> never_throws T_plain \<and>
   Insert T_plain (vec [1, 2, 3] 1) 0 (Inside 2) = Ok (vec [3, 1, 2, 3] 0, 0) \<and>
   at (vec [3, 1, 2, 3::nat] 0) 0 = Some (elems (vec [1, 2, 3] 1) ! 2)"
proof -
  have inv: "Vector_inv (vec [1, 2, 3::nat] 1)"
    by code_simp
  have room: "m_size (vec [1, 2, 3::nat] 1) < Capacity (vec [1, 2, 3::nat] 1)"
    by code_simp
  have pi: "(0::nat) \<le> 2"
    by simp
  have i: "2 < m_size (vec [1, 2, 3::nat] 1)"
    by code_simp
  have quiet: "never_throws T_plain"
    by (simp add: never_throws_def T_plain_def)
  have run: "Insert T_plain (vec [1, 2, 3] 1) 0 (Inside 2) = Ok (vec [3, 1, 2, 3] 0, 0)"
    by code_simp
  from Insert_own_element [OF inv room pi i, of T_plain] run
  have "at (vec [3, 1, 2, 3::nat] 0) 0 = Some (elems (vec [1, 2, 3] 1) ! 2)"
    by simp
  with inv room pi i quiet run show ?thesis
    by simp
qed

text \<open>
  C2. An insertion into a full vector (length equal to capacity) that throws leaves the
  length and the capacity as they were and the invariant intact. The vector is exactly as
  before the call when \<open>T\<close> is nothrow-move-constructible or copy-constructible and the
  new element is not moved out of the vector itself. It is also exactly as before, for
  every \<open>T\<close>, when it is the construction of the new element that throws: the new element
  is constructed before anything is relocated.
\<close>

theorem Emplace_realloc_rollback:
  assumes wf: "well_formed E" and inv: "Vector_inv v" and full: "m_size v = Capacity v"
    and p: "p \<le> m_size v" and thrown: "Emplace E v p args = Threw e v'"
  shows "m_size v' = m_size v \<and> Capacity v' = Capacity v \<and> Vector_inv v' \<and>
         (\<not> steals args \<and> (nothrow_move_constructible E \<or> copy_constructible E) \<longrightarrow> v' = v) \<and>
         ((\<forall>t. arg_value (elems v) args = Some t \<longrightarrow> arg_throws E args t) \<longrightarrow> v' = v)"
proof -
  obtain xs k where v: "v = vec xs k"
    using Vector_inv_is_vec [OF inv] by blast
  from full have k: "k = 0"
    unfolding v by simp
  have p': "p \<le> length xs"
    using p by (simp add: v)
  have quiet: "nothrow_move_constructible E \<Longrightarrow> \<not> move_ctor_throws E x" for x
    using wf by (simp add: well_formed_def)
  from thrown show ?thesis
    unfolding v k Emplace_vec_full EmplaceWithRealloc_vec [OF p']
    using quiet
    by (auto split: if_splits option.splits args.splits simp: after_args_keeps)
qed

text \<open>A copy constructor that throws on the element 2 during the relocation.\<close>

theorem Emplace_realloc_rollback_witness:
  "well_formed T_throwing_copy \<and> Vector_inv (vec [1, 2, 3] 0) \<and>
   m_size (vec [1, 2, 3::nat] 0) = Capacity (vec [1, 2, 3::nat] 0) \<and>
   (1::nat) \<le> m_size (vec [1, 2, 3::nat] 0) \<and>
   Emplace T_throwing_copy (vec [1, 2, 3] 0) 1 (CopyOf (Outside 9)) = Threw ElemExn (vec [1, 2, 3] 0) \<and>
   \<not> steals (CopyOf (Outside (9::nat))) \<and> copy_constructible T_throwing_copy"
proof -
  have wf: "well_formed T_throwing_copy"
    by (simp add: well_formed_def T_throwing_copy_def)
  have inv: "Vector_inv (vec [1, 2, 3::nat] 0)"
    by code_simp
  have full: "m_size (vec [1, 2, 3::nat] 0) = Capacity (vec [1, 2, 3::nat] 0)"
    by code_simp
  have p: "(1::nat) \<le> m_size (vec [1, 2, 3::nat] 0)"
    by code_simp
  have thrown: "Emplace T_throwing_copy (vec [1, 2, 3] 0) 1 (CopyOf (Outside 9))
      = Threw ElemExn (vec [1, 2, 3] 0)"
    by code_simp
  have more: "\<not> steals (CopyOf (Outside (9::nat)))" "copy_constructible T_throwing_copy"
    by (simp_all add: T_throwing_copy_def)
  from Emplace_realloc_rollback [OF wf inv full p thrown] wf inv full p thrown more
  show ?thesis by simp
qed

text \<open>
  For a type that can only be moved and whose move constructor throws on the element 2,
  the prefix was moved before the suffix threw: the element 1 is left moved-from.
\<close>

theorem Emplace_realloc_move_only_counterexample:
  "m_size (vec [1, 2, 3::nat] 0) = Capacity (vec [1, 2, 3::nat] 0) \<and>
   Emplace T_move_only (vec [1, 2, 3] 0) 1 (Direct (Some 9)) = Threw ElemExn (vec [0, 2, 3] 0) \<and>
   elems (vec [0, 2, 3::nat] 0) \<noteq> elems (vec [1, 2, 3] 0)"
  by code_simp

text \<open>
  C3. An insertion without reallocation, in front of the end, first move-constructs the
  last element into the slot at \<open>size_\<close> and only sets \<open>size_\<close> at the very end. When a move
  assignment of the shift throws, the exception leaves the vector with a live object in
  the slot at \<open>size_\<close>: the invariant that the slots from \<open>size_\<close> on are raw memory is not
  restored.
\<close>

theorem Emplace_throwing_move_assign_breaks_invariant:
  "Vector_inv (vec [1, 2, 3] 1) \<and>
   Insert T_throwing_assign (vec [1, 2, 3] 1) 0 (Outside 9)
     = Threw ElemExn \<lparr>m_data = \<lparr>m_buffer = [Some 1, Some 2, Some 0, Some 3], m_capacity = 4\<rparr>,
                       m_size = 3\<rparr> \<and>
   \<not> Vector_inv \<lparr>m_data = \<lparr>m_buffer = [Some 1, Some 2, Some 0, Some (3::nat)], m_capacity = 4\<rparr>,
                   m_size = 3\<rparr>"
  by code_simp

section \<open>\<open>Erase\<close>\<close>

lemma Erase_vec:
  assumes p: "p < length xs"
  shows "\<forall>y\<in>set (drop (Suc p) xs). \<not> move_assign_throws E y \<Longrightarrow>
         Erase E (vec xs k) p = Ok (vec (take p xs @ drop (Suc p) xs) (Suc k), p)"
    (is "?quiet \<Longrightarrow> ?done")
    and "\<exists>y\<in>set (drop (Suc p) xs). move_assign_throws E y \<Longrightarrow>
         \<exists>b'. Erase E (vec xs k) p = Threw ElemExn (with_buffer (vec xs k) b')
            \<and> map (\<lambda>s. s = None) b' = replicate (length xs) False @ replicate k True"
    (is "?loud \<Longrightarrow> ?thrown")
proof -
  define as where "as = take p xs"
  define x where "x = xs ! p"
  define bs where "bs = drop (Suc p) xs"
  have split: "xs = as @ x # bs"
    unfolding as_def x_def bs_def using p by (simp add: id_take_nth_drop [symmetric])
  have las: "length as = p"
    using p by (simp add: as_def)
  have n: "length xs = Suc (length as + length bs)"
    unfolding split by simp
  let ?b = "map Some as @ Some x # map Some bs @ replicate k None"
  let ?b' = "map Some as @ map Some bs @ Some (if bs = [] then x else moved_from E (last bs))
               # replicate k None"
  have b: "map Some xs @ replicate k None = ?b"
    unfolding split by simp
  have body: "Erase E (vec xs k) p =
      (case move_loop E ?b (Suc (length (map Some as))) (length bs) (length (map Some as)) of
         Threw e b \<Rightarrow> Threw e (with_buffer (vec xs k) b)
       | Undefined \<Rightarrow> Undefined
       | Ok b \<Rightarrow>
           (case destroy_n b (length as + length bs) 1 of
              None \<Rightarrow> Undefined
            | Some b' \<Rightarrow> Ok ((with_buffer (vec xs k) b')\<lparr>m_size := length as + length bs\<rparr>, p)))"
    unfolding Erase_def std_move_def vec_sel b n las [symmetric]
    by (simp split: outcome.splits)
  have destroyed: "destroy_n ?b' (length as + length bs) 1
      = Some (map Some as @ map Some bs @ None # replicate k None)"
    using destroy_n_append [of "map Some as @ map Some bs" "[if bs = [] then x else moved_from E (last bs)]"
        "replicate k None"]
    by simp
  have final: "(with_buffer (vec xs k) (map Some as @ map Some bs @ None # replicate k None))
        \<lparr>m_size := length as + length bs\<rparr> = vec (as @ bs) (Suc k)"
    using n by (simp add: with_buffer_def vec_def)
  show ?done if quiet: ?quiet
  proof -
    have "\<forall>y\<in>set bs. \<not> move_assign_throws E y"
      using quiet by (simp add: bs_def)
    then have "move_loop E ?b (Suc (length (map Some as))) (length bs) (length (map Some as)) = Ok ?b'"
      by (rule move_loop_append)
    then show ?thesis
      unfolding body as_def [symmetric] bs_def [symmetric] by (simp only: outcome.case destroyed option.case final)
  qed
  show ?thrown if loud: ?loud
  proof -
    have "\<exists>y\<in>set bs. move_assign_throws E y"
      using loud by (simp add: bs_def)
    then have "\<exists>b'. move_loop E ?b (Suc (length (map Some as))) (length bs) (length (map Some as))
        = Threw ElemExn b'"
      by (rule move_loop_throws)
    then obtain b' where
      thrown: "move_loop E ?b (Suc (length (map Some as))) (length bs) (length (map Some as)) = Threw ElemExn b'"
      by blast
    then have "map (\<lambda>s. s = None) b' = map (\<lambda>s. s = None) ?b"
      using move_loop_shape [of E ?b _ _ _ b' ElemExn] by blast
    also have "\<dots> = replicate (length xs) False @ replicate k True"
      unfolding b [symmetric] by (rule shape_of_vec)
    finally show ?thesis
      unfolding body thrown by auto
  qed
qed

lemma all_of_shape:
  assumes "map (\<lambda>s. s = None) ys = replicate n c"
  shows "list_all (\<lambda>s. (s = None) = c) ys"
  unfolding list_all_iff
proof
  fix s
  assume "s \<in> set ys"
  then have "(s = None) \<in> set (map (\<lambda>s. s = None) ys)"
    by simp
  then have "(s = None) \<in> set (replicate n c)"
    unfolding assms .
  then show "(s = None) = c"
    by simp
qed

lemma Vector_inv_shape:
  assumes "map (\<lambda>s. s = None) b = replicate n False @ replicate k True"
  shows "Vector_inv \<lparr>m_data = \<lparr>m_buffer = b, m_capacity = n + k\<rparr>, m_size = n\<rparr>"
proof -
  have len: "length b = n + k"
    using arg_cong [OF assms, of length] by simp
  have "map (\<lambda>s. s = None) (take n b) = replicate n False"
    using arg_cong [OF assms, of "take n"] by (simp add: take_map)
  then have live: "list_all (\<lambda>s. s \<noteq> None) (take n b)"
    using all_of_shape [of "take n b" n False] by simp
  have "map (\<lambda>s. s = None) (drop n b) = replicate k True"
    using arg_cong [OF assms, of "drop n"] by (simp add: drop_map)
  then have raw: "list_all (\<lambda>s. s = None) (drop n b)"
    using all_of_shape [of "drop n b" k True] by simp
  show ?thesis
    using len live raw by (simp add: Vector_inv_def live_prefix_def)
qed

text \<open>
  C6. In a vector of length \<open>n \<ge> 1\<close> that satisfies the invariant, erasing at a position
  \<open>p < n\<close> has defined behaviour and returns when nothing throws. When it returns, the
  vector has length \<open>n - 1\<close>, its elements are the old ones without the one at \<open>p\<close>, in the
  same order, so the element formerly at \<open>p + 1\<close> is now at \<open>p\<close>; the iterator returned
  is \<open>p\<close>, the slot of that following element, and it is \<open>end()\<close> when the last element
  was erased.
\<close>

theorem Erase_removes:
  assumes inv: "Vector_inv v" and p: "p < m_size v"
  shows "Erase E v p \<noteq> Undefined \<and>
         (never_throws E \<longrightarrow> (\<exists>v'. Erase E v p = Ok (v', p))) \<and>
         (\<forall>v' it. Erase E v p = Ok (v', it) \<longrightarrow>
            Size v' = Size v - 1 \<and>
            elems v' = take p (elems v) @ drop (Suc p) (elems v) \<and>
            (Suc p < Size v \<longrightarrow> at v' p = Some (elems v ! Suc p)) \<and>
            it = p \<and> at v' it = (if Suc p < Size v then Some (elems v ! Suc p) else None) \<and>
            (Suc p = Size v \<longrightarrow> it = Size v') \<and>
            Vector_inv v')"
proof -
  obtain xs k where v: "v = vec xs k"
    using Vector_inv_is_vec [OF inv] by blast
  have p': "p < length xs"
    using p by (simp add: v)
  note erase = Erase_vec [OF p', of E k]
  show ?thesis
  proof (cases "\<exists>y\<in>set (drop (Suc p) xs). move_assign_throws E y")
    case True
    then have "\<not> never_throws E"
      by (auto simp: never_throws_def)
    moreover obtain b' where "Erase E (vec xs k) p = Threw ElemExn (with_buffer (vec xs k) b')"
      using erase(2) [OF True] by blast
    ultimately show ?thesis
      unfolding v by simp
  next
    case False
    then have "Erase E (vec xs k) p = Ok (vec (take p xs @ drop (Suc p) xs) (Suc k), p)"
      using erase(1) by blast
    then show ?thesis
      unfolding v using p'
      by (auto simp: at_vec nth_append min_def Suc_diff_Suc [symmetric]
               simp del: Suc_diff_Suc)
  qed
qed

text \<open>Erasing the first element of the vector 1, 2, 3.\<close>

theorem Erase_removes_witness:
  "Vector_inv (vec [1, 2, 3] 1) \<and> (0::nat) < m_size (vec [1, 2, 3::nat] 1) \<and> never_throws T_plain \<and>
   Erase T_plain (vec [1, 2, 3] 1) 0 = Ok (vec [2, 3] 2, 0) \<and>
   elems (vec [2, 3::nat] 2) = take 0 (elems (vec [1, 2, 3] 1)) @ drop (Suc 0) (elems (vec [1, 2, 3] 1)) \<and>
   at (vec [2, 3::nat] 2) 0 = Some (elems (vec [1, 2, 3] 1) ! Suc 0)"
proof -
  have inv: "Vector_inv (vec [1, 2, 3::nat] 1)"
    by code_simp
  have p: "(0::nat) < m_size (vec [1, 2, 3::nat] 1)"
    by code_simp
  have run: "Erase T_plain (vec [1, 2, 3] 1) 0 = Ok (vec [2, 3] 2, 0)"
    by code_simp
  from Erase_removes [OF inv p, of T_plain] run
  have "elems (vec [2, 3::nat] 2)
          = take 0 (elems (vec [1, 2, 3] 1)) @ drop (Suc 0) (elems (vec [1, 2, 3] 1))
        \<and> at (vec [2, 3::nat] 2) 0 = Some (elems (vec [1, 2, 3] 1) ! Suc 0)"
    by simp
  with inv p never_throws_T_plain run show ?thesis
    by simp
qed

section \<open>Copy assignment\<close>

lemma length_assigned_prefix:
  "length ys \<le> length xs \<Longrightarrow> length (assigned_prefix E ys xs) = length xs"
proof -
  assume "length ys \<le> length xs"
  moreover have "length (takeWhile (\<lambda>y. \<not> copy_assign_throws E y) ys) \<le> length ys"
    by (rule length_takeWhile_le)
  ultimately show ?thesis
    by (simp add: assigned_prefix_def)
qed

lemma Vector_copy_vec:
  "Vector_copy E (vec ys j) =
     (if ys \<noteq> [] \<and> alloc_fails E (length ys) then Threw BadAlloc ()
      else if \<exists>y\<in>set ys. copy_ctor_throws E y then Threw ElemExn ()
      else Ok (vec ys 0))"
proof -
  have copied: "uninitialized_copy_n E (map Some ys @ replicate j None) 0 (length ys)
        (replicate (length ys) None) 0
      = (if \<exists>y\<in>set ys. copy_ctor_throws E y then Threw ElemExn (replicate (length ys) None)
         else Ok (map Some ys))"
    using uninitialized_copy_n_fresh [of ys "length ys" E "replicate j None"] by simp
  show ?thesis
  proof (cases "ys = []")
    case True
    then show ?thesis
      by (simp add: Vector_copy_def RawMemory_ctor_fitting_def vec_def)
  next
    case False
    then show ?thesis
      using copied
      by (simp add: Vector_copy_def RawMemory_ctor_fitting_def vec_def)
  qed
qed

lemma copy_n_front:
  assumes c: "c \<le> length xs" "c \<le> length ys"
  shows "copy_n E (map Some ys @ sq) 0 c (map Some xs @ dq) 0
     = (if \<exists>y\<in>set (take c ys). copy_assign_throws E y
        then Threw ElemExn (map Some (assigned_prefix E (take c ys) xs) @ dq)
        else Ok (map Some (take c ys @ drop c xs) @ dq))"
proof -
  let ?ok = "\<lambda>y. \<not> copy_assign_throws E y"
  let ?n = "length (takeWhile ?ok (take c ys))"
  have src: "map Some ys @ sq = [] @ map Some (take c ys) @ (map Some (drop c ys) @ sq)"
    by (metis append_Nil append_assoc append_take_drop_id map_append)
  have dst: "map Some xs @ dq = [] @ map Some (take c xs) @ (map Some (drop c xs) @ dq)"
    by (metis append_Nil append_assoc append_take_drop_id map_append)
  have len: "length (take c xs) = length (take c ys)" "length (take c ys) = c"
    using c by simp_all
  have "?n \<le> length (take c ys)"
    by (rule length_takeWhile_le)
  then have short: "?n \<le> c"
    using c by simp
  have "drop ?n (take c xs @ drop c xs)
      = drop ?n (take c xs) @ drop (?n - length (take c xs)) (drop c xs)"
    by (rule drop_append)
  moreover have "?n - length (take c xs) = 0"
    using short c by simp
  ultimately have rest: "drop ?n (take c xs) @ drop c xs = drop ?n xs"
    by simp
  have "copy_n E (map Some ys @ sq) 0 c (map Some xs @ dq) 0
      = copy_n E ([] @ map Some (take c ys) @ (map Some (drop c ys) @ sq))
          (length ([] :: 'a option list)) (length (take c ys))
          ([] @ map Some (take c xs) @ (map Some (drop c xs) @ dq)) (length ([] :: 'a option list))"
    unfolding len by (simp only: src [symmetric] dst [symmetric] list.size)
  also have "\<dots>
     = (if \<exists>y\<in>set (take c ys). copy_assign_throws E y
        then Threw ElemExn
               ([] @ map Some (takeWhile ?ok (take c ys) @ drop ?n (take c xs))
                  @ (map Some (drop c xs) @ dq))
        else Ok ([] @ map Some (take c ys) @ (map Some (drop c xs) @ dq)))"
    by (rule copy_n_append [OF len(1)])
  also have "[] @ map Some (takeWhile ?ok (take c ys) @ drop ?n (take c xs))
                  @ (map Some (drop c xs) @ dq)
      = map Some (assigned_prefix E (take c ys) xs) @ dq"
    unfolding assigned_prefix_def rest [symmetric] by simp
  also have "[] @ map Some (take c ys) @ (map Some (drop c xs) @ dq)
      = map Some (take c ys @ drop c xs) @ dq"
    by simp
  finally show ?thesis .
qed

lemma copy_assign_vec:
  assumes ne: "this \<noteq> rhs" and target: "st this = vec xs k" and source: "st rhs = vec ys j"
  shows "copy_assign E st this rhs =
    (if length xs + k < length ys then
       (if alloc_fails E (length ys) then Threw BadAlloc st
        else if \<exists>y\<in>set ys. copy_ctor_throws E y then Threw ElemExn st
        else Ok (st(this := vec ys 0)))
     else if \<exists>y\<in>set (take (length xs) ys). copy_assign_throws E y then
       Threw ElemExn (st(this := vec (assigned_prefix E (take (length xs) ys) xs) k))
     else if \<exists>y\<in>set (drop (length xs) ys). copy_ctor_throws E y then
       Threw ElemExn (st(this := vec (take (length xs) ys) k))
     else Ok (st(this := vec ys (length xs + k - length ys))))"
proof (cases "length xs + k < length ys")
  case True
  then have "ys \<noteq> []" by auto
  moreover have "Vector_dtor (vec xs k) = Some (replicate (length xs) None @ replicate k None)"
    unfolding Vector_dtor_def vec_sel by (rule destroy_n_front)
  moreover have "Swap (vec xs k) (vec ys 0) = (vec ys 0, vec xs k)"
    by (simp add: Swap_def RawMemory_Swap_def vec_def)
  ultimately show ?thesis
    using True ne
    by (simp add: copy_assign_def target source Vector_copy_vec)
next
  case False
  define c where "c = min (length ys) (length xs)"
  have c: "c \<le> length xs" "c \<le> length ys"
    by (simp_all add: c_def)
  have tk: "take c ys = take (length xs) ys"
    by (simp add: c_def min_def)
  note assigned = copy_n_front [OF c, of E "replicate j None" "replicate k None", unfolded tk]
  have body: "copy_assign E st this rhs =
      (case copy_n E (map Some ys @ replicate j None) 0 c (map Some xs @ replicate k None) 0 of
         Threw e b \<Rightarrow> Threw e (st(this := with_buffer (vec xs k) b))
       | Undefined \<Rightarrow> Undefined
       | Ok b \<Rightarrow>
           (if length ys < length xs then
              (case destroy_n b (length ys) (length xs - length ys) of
                 None \<Rightarrow> Undefined
               | Some b' \<Rightarrow> Ok (st(this := (with_buffer (vec xs k) b')\<lparr>m_size := length ys\<rparr>)))
            else
              (case uninitialized_copy_n E (map Some ys @ replicate j None) (length xs)
                      (length ys - length xs) b (length xs) of
                 Threw e b' \<Rightarrow> Threw e (st(this := with_buffer (vec xs k) b'))
               | Undefined \<Rightarrow> Undefined
               | Ok b' \<Rightarrow> Ok (st(this := (with_buffer (vec xs k) b')\<lparr>m_size := length ys\<rparr>)))))"
    using False ne unfolding copy_assign_def target source Let_def vec_sel c_def by simp
  show ?thesis
  proof (cases "\<exists>y\<in>set (take (length xs) ys). copy_assign_throws E y")
    case True
    have "length (take (length xs) ys) \<le> length xs"
      by simp
    then have "length (assigned_prefix E (take (length xs) ys) xs) = length xs"
      by (rule length_assigned_prefix)
    then show ?thesis
      using False True unfolding body assigned by simp
  next
    case quiet: False
    show ?thesis
    proof (cases "length ys < length xs")
      case True
      then have whole: "take (length xs) ys = ys" "drop (length xs) ys = []" and cy: "c = length ys"
        by (simp_all add: c_def)
      have "destroy_n (map Some ys @ map Some (drop (length ys) xs) @ replicate k None) (length (map Some ys))
              (length (drop (length ys) xs))
          = Some (map Some ys @ replicate (length (drop (length ys) xs)) None @ replicate k None)"
        by (rule destroy_n_append)
      then have destroyed: "destroy_n (map Some ys @ map Some (drop c xs) @ replicate k None) (length ys)
              (length xs - length ys)
          = Some (map Some ys @ replicate (length xs + k - length ys) None)"
        using True by (simp add: cy replicate_add [symmetric])
      have final: "(with_buffer (vec xs k) (map Some ys @ replicate (length xs + k - length ys) None))
            \<lparr>m_size := length ys\<rparr> = vec ys (length xs + k - length ys)"
        using True by (simp add: with_buffer_def vec_def)
      show ?thesis
        using False True quiet unfolding body assigned whole
        by (simp add: destroyed final)
    next
      case grows: False
      define m where "m = length ys - length xs"
      define r where "r = length xs + k - length ys"
      have k: "k = m + r" and cx: "c = length xs" and lt: "length (take (length xs) ys) = length xs"
        and ld: "length (drop (length xs) ys) = m"
        using False grows by (simp_all add: m_def r_def c_def)
      have joined: "map Some (take (length xs) ys) @ map Some (drop (length xs) ys) @ z
          = map Some ys @ z" for z
        by (metis append_assoc append_take_drop_id map_append)
      have src: "map Some ys @ replicate j None
          = map Some (take (length xs) ys) @ map Some (drop (length xs) ys) @ replicate j None"
        by (simp only: joined)
      have "uninitialized_copy_n E
              (map Some (take (length xs) ys) @ map Some (drop (length xs) ys) @ replicate j None)
              (length (map Some (take (length xs) ys))) (length (drop (length xs) ys))
              (map Some (take (length xs) ys) @ replicate (length (drop (length xs) ys)) None
                 @ replicate r None)
              (length (map Some (take (length xs) ys)))
          = (if \<exists>y\<in>set (drop (length xs) ys). copy_ctor_throws E y
             then Threw ElemExn (map Some (take (length xs) ys)
                     @ replicate (length (drop (length xs) ys)) None @ replicate r None)
             else Ok (map Some (take (length xs) ys) @ map Some (drop (length xs) ys)
                        @ replicate r None))"
        by (rule uninitialized_copy_n_append)
      then have extended: "uninitialized_copy_n E (map Some ys @ replicate j None) (length xs)
              (length ys - length xs) (map Some (take (length xs) ys) @ replicate k None) (length xs)
          = (if \<exists>y\<in>set (drop (length xs) ys). copy_ctor_throws E y
             then Threw ElemExn (map Some (take (length xs) ys) @ replicate k None)
             else Ok (map Some ys @ replicate r None))"
        unfolding src [symmetric] k ld
        by (simp only: length_map lt m_def [symmetric] replicate_add append_assoc joined)
      have final: "(with_buffer (vec xs k) (map Some ys @ replicate r None))
            \<lparr>m_size := length ys\<rparr> = vec ys r"
        using False grows by (simp add: with_buffer_def vec_def r_def)
      have kept: "with_buffer (vec xs k) (map Some (take (length xs) ys) @ replicate k None)
          = vec (take (length xs) ys) k"
        using lt by simp
      have none: "drop c xs = []"
        by (simp add: cx)
      show ?thesis
        using False grows quiet unfolding body assigned none
        by (simp add: extended final kept r_def [symmetric])
    qed
  qed
qed

text \<open>
  C7. Copy assignment between two distinct vectors that satisfy the invariant has defined
  behaviour. When the source has more elements than the target has capacity, it returns
  exactly when the allocation and the copy construction of every source element succeed,
  and an exception leaves the whole store, the target included, untouched. Otherwise it
  returns exactly when the copy assignment of the source elements that overlap the
  target's elements and the copy construction of the source's further elements succeed.
  When it returns, the target has the elements and the length of the source, its
  capacity is the source's length in the first case and unchanged in the second, and no
  other vector of the store has changed. After any exception the target still satisfies
  the invariant, with its length and capacity unchanged.
\<close>

theorem copy_assign_correct:
  assumes ne: "this \<noteq> rhs" and target: "Vector_inv (st this)" and source: "Vector_inv (st rhs)"
  shows "copy_assign E st this rhs \<noteq> Undefined \<and>
    ((\<exists>st'. copy_assign E st this rhs = Ok st') \<longleftrightarrow>
       (if Capacity (st this) < Size (st rhs)
        then \<not> alloc_fails E (Size (st rhs)) \<and> (\<forall>y\<in>set (elems (st rhs)). \<not> copy_ctor_throws E y)
        else (\<forall>y\<in>set (take (Size (st this)) (elems (st rhs))). \<not> copy_assign_throws E y) \<and>
             (\<forall>y\<in>set (drop (Size (st this)) (elems (st rhs))). \<not> copy_ctor_throws E y))) \<and>
    (\<forall>st'. copy_assign E st this rhs = Ok st' \<longrightarrow>
        elems (st' this) = elems (st rhs) \<and> Size (st' this) = Size (st rhs) \<and>
        Vector_inv (st' this) \<and> (\<forall>a. a \<noteq> this \<longrightarrow> st' a = st a) \<and>
        Capacity (st' this) =
          (if Capacity (st this) < Size (st rhs) then Size (st rhs) else Capacity (st this))) \<and>
    (\<forall>e st'. copy_assign E st this rhs = Threw e st' \<longrightarrow>
        Vector_inv (st' this) \<and> (\<forall>a. a \<noteq> this \<longrightarrow> st' a = st a) \<and>
        Size (st' this) = Size (st this) \<and> Capacity (st' this) = Capacity (st this) \<and>
        (Capacity (st this) < Size (st rhs) \<longrightarrow> st' = st))"
proof -
  obtain xs k where t: "st this = vec xs k"
    using Vector_inv_is_vec [OF target] by blast
  obtain ys j where s: "st rhs = vec ys j"
    using Vector_inv_is_vec [OF source] by blast
  have len: "length (assigned_prefix E (take (length xs) ys) xs) = length xs"
    by (rule length_assigned_prefix) simp
  have long: "length xs \<le> length ys" if "x \<in> set (drop (length xs) ys)" for x
    using that by (cases "length xs \<le> length ys") auto
  show ?thesis
    unfolding copy_assign_vec [OF ne t s] t s
    using len t long by (auto simp: fun_upd_idem min_def)
qed

text \<open>Assigning the vector 4, 5 to the vector 1, 2, 3 of capacity 4.\<close>

theorem copy_assign_correct_witness:
  "(0::nat) \<noteq> 1 \<and> Vector_inv (two_vectors 0) \<and> Vector_inv (two_vectors 1) \<and>
   (\<exists>st'. copy_assign T_plain two_vectors 0 1 = Ok st' \<and>
          elems (st' 0) = [4, 5] \<and> Size (st' 0) = 2 \<and> Capacity (st' 0) = 4 \<and>
          st' 1 = two_vectors 1)"
proof -
  have ne: "(0::nat) \<noteq> 1"
    by simp
  have target: "Vector_inv (two_vectors 0)" and source: "Vector_inv (two_vectors 1)"
    by (simp_all add: two_vectors_def)
  have sizes: "Capacity (two_vectors 0) = 4" "Size (two_vectors 1) = 2" "Size (two_vectors 0) = 3"
    "elems (two_vectors 1) = [4, 5]"
    by (simp_all add: two_vectors_def)
  note fact = copy_assign_correct [OF ne target source, of T_plain]
  have "\<exists>st'. copy_assign T_plain two_vectors 0 1 = Ok st'"
    using fact unfolding sizes by (simp add: T_plain_def)
  then obtain st' where run: "copy_assign T_plain two_vectors 0 1 = Ok st'"
    by blast
  with fact have "elems (st' 0) = [4, 5] \<and> Size (st' 0) = 2 \<and> Capacity (st' 0) = 4 \<and>
      st' 1 = two_vectors 1"
    unfolding sizes by simp
  with ne target source run show ?thesis
    by blast
qed

section \<open>Growth of the capacity under appends\<close>

lemma append_Emplace:
  "run_append E v a =
     (case Emplace E v (m_size v) (args_of a) of
        Ok (v', r) \<Rightarrow> Ok v'
      | Threw e v' \<Rightarrow> Threw e v'
      | Undefined \<Rightarrow> Undefined)"
  by (cases a) (simp_all add: PushBack_def PushBack_rvalue_def EmplaceBack_def)

lemma args_in_value:
  assumes "args_in (length xs) args"
  shows "arg_value xs args \<noteq> None \<or> args = Direct None"
proof (cases args)
  case (CopyOf s)
  with assms show ?thesis by (cases s) simp_all
next
  case (MoveOf s)
  with assms show ?thesis by (cases s) simp_all
next
  case (Direct r)
  then show ?thesis by (cases r) simp_all
qed

lemma append_vec:
  "args_in (length xs) (args_of a) \<Longrightarrow> run_append E (vec xs k) a \<noteq> Undefined"
  "never_throws E \<Longrightarrow> arg_value xs (args_of a) = Some t \<Longrightarrow> \<exists>v'. run_append E (vec xs k) a = Ok v'"
  "run_append E (vec xs k) a = Ok v' \<Longrightarrow>
     \<exists>t. arg_value xs (args_of a) = Some t \<and>
         v' = vec (after_args E xs (args_of a) @ [t])
                (if k = 0 then max 1 (2 * length xs) - Suc (length xs) else k - 1)"
proof -
  have p: "length xs \<le> length xs"
    by simp
  show "run_append E (vec xs k) a \<noteq> Undefined" if "args_in (length xs) (args_of a)"
    using Emplace_defined [OF p args_in_value [OF that], of E k]
    by (simp add: append_Emplace split: outcome.splits)
  show "\<exists>v'. run_append E (vec xs k) a = Ok v'"
    if "never_throws E" and "arg_value xs (args_of a) = Some t"
    using Emplace_returns [OF p that(2) that(1), of k]
    by (auto simp: append_Emplace)
  show "\<exists>t. arg_value xs (args_of a) = Some t \<and>
         v' = vec (after_args E xs (args_of a) @ [t])
                (if k = 0 then max 1 (2 * length xs) - Suc (length xs) else k - 1)"
    if "run_append E (vec xs k) a = Ok v'"
  proof -
    from that obtain it where "Emplace E (vec xs k) (length xs) (args_of a) = Ok (v', it)"
      by (auto simp: append_Emplace split: outcome.splits)
    from Emplace_Ok [OF p this] show ?thesis
      by (auto simp: max_def)
  qed
qed

lemma run_appends_vec:
  assumes law: "(length ys = 0 \<and> k = 0) \<or> (\<exists>i. length ys + k = 2 ^ i \<and> 2 ^ i < 2 * length ys)"
  shows "(refs_valid (length ys) as \<longrightarrow> run_appends E (vec ys k) as \<noteq> Undefined) \<and>
         (never_throws E \<and> appended E ys as \<noteq> None \<longrightarrow>
            (\<exists>v'. run_appends E (vec ys k) as = Ok v')) \<and>
         (\<forall>v'. run_appends E (vec ys k) as = Ok v' \<longrightarrow>
            (\<exists>zs k'. appended E ys as = Some zs \<and> length zs = length ys + length as \<and>
               v' = vec zs k' \<and>
               ((length zs = 0 \<and> k' = 0) \<or>
                (\<exists>i. length zs + k' = 2 ^ i \<and> 2 ^ i < 2 * length zs))))"
  using law
proof (induction as arbitrary: ys k)
  case Nil
  then show ?case by auto
next
  case (Cons a as)
  define k1 where "k1 = (if k = 0 then max 1 (2 * length ys) - Suc (length ys) else k - 1)"
  have next_law: "(length ys1 = 0 \<and> k1 = 0)
      \<or> (\<exists>i. length ys1 + k1 = 2 ^ i \<and> 2 ^ i < 2 * length ys1)"
    if len: "length ys1 = Suc (length ys)" for ys1 :: "'a list"
  proof (cases "k = 0")
    case True
    show ?thesis
    proof (cases "length ys = 0")
      case True
      with \<open>k = 0\<close> have "length ys1 + k1 = 2 ^ 0 \<and> (2::nat) ^ 0 < 2 * length ys1"
        by (simp add: k1_def len)
      then show ?thesis by blast
    next
      case False
      with Cons.prems True obtain i where i: "length ys = 2 ^ i"
        by auto
      have "length ys1 + k1 = 2 ^ Suc i \<and> (2::nat) ^ Suc i < 2 * length ys1"
        using False True i by (simp add: k1_def max_def len)
      then show ?thesis by blast
    qed
  next
    case False
    with Cons.prems obtain i where "length ys + k = 2 ^ i" "2 ^ i < 2 * length ys"
      by auto
    then have "length ys1 + k1 = 2 ^ i \<and> (2::nat) ^ i < 2 * length ys1"
      using False by (simp add: k1_def len)
    then show ?thesis by blast
  qed
  show ?case
  proof (cases "run_append E (vec ys k) a")
    case (Ok v1)
    from append_vec(3) [OF Ok] obtain t where t: "arg_value ys (args_of a) = Some t"
      and v1: "v1 = vec (after_args E ys (args_of a) @ [t]) k1"
      by (auto simp: k1_def)
    define ys1 where "ys1 = after_args E ys (args_of a) @ [t]"
    have len: "length ys1 = Suc (length ys)"
      by (simp add: ys1_def)
    note IH = Cons.IH [OF next_law [OF len]]
    show ?thesis
      using IH by (simp add: Ok v1 t ys1_def [symmetric] len)
  next
    case (Threw e v1)
    have "\<not> (never_throws E \<and> appended E ys (a # as) \<noteq> None)"
    proof
      assume quiet: "never_throws E \<and> appended E ys (a # as) \<noteq> None"
      then obtain t where "arg_value ys (args_of a) = Some t"
        by (cases "arg_value ys (args_of a)") auto
      from append_vec(2) [OF _ this, of E k] quiet Threw show False
        by auto
    qed
    then show ?thesis
      by (simp add: Threw)
  next
    case Undefined
    have "\<not> (never_throws E \<and> appended E ys (a # as) \<noteq> None)"
    proof
      assume quiet: "never_throws E \<and> appended E ys (a # as) \<noteq> None"
      then obtain t where "arg_value ys (args_of a) = Some t"
        by (cases "arg_value ys (args_of a)") auto
      from append_vec(2) [OF _ this, of E k] quiet Undefined show False
        by auto
    qed
    moreover have "\<not> args_in (length ys) (args_of a)"
      using append_vec(1) [of ys a E k] Undefined by auto
    ultimately show ?thesis
      by (simp add: Undefined)
  qed
qed

lemma appended_outside:
  "appended E ys (map (\<lambda>x. ByPushBack (Outside x)) xs) = Some (ys @ xs)"
  "appended E ys (map (\<lambda>x. ByPushBack_rvalue (Outside x)) xs) = Some (ys @ xs)"
  "appended E ys (map (\<lambda>x. ByEmplaceBack (Direct (Some x))) xs) = Some (ys @ xs)"
  by (induction xs arbitrary: ys) simp_all

text \<open>
  C4. A sequence of appends to a default-constructed vector, each of them
  \<open>PushBack(const T&)\<close>, \<open>PushBack(T&&)\<close> or \<open>EmplaceBack\<close>, has defined behaviour when its
  references into the vector are valid, and returns when nothing throws and every
  argument has a value. After the appends \<open>as\<close> have returned, the vector holds one
  element for each append, the values of the arguments in order, and its capacity is 0
  for no append and otherwise the power of two \<open>2 ^ i\<close> with
  \<open>length as \<le> 2 ^ i < 2 * length as\<close>: the capacities are 1, 2, 4, 8, ... A further
  append of any of the three kinds adds one element and changes the capacity exactly
  when the length equals the capacity, to \<open>max 1 (2 * length)\<close>.
\<close>

theorem append_growth:
  "(refs_valid 0 as \<longrightarrow> run_appends E Vector_default as \<noteq> Undefined) \<and>
   (never_throws E \<and> appended E [] as \<noteq> None \<longrightarrow>
      (\<exists>v. run_appends E Vector_default as = Ok v)) \<and>
   (\<forall>v. run_appends E Vector_default as = Ok v \<longrightarrow>
      appended E [] as = Some (elems v) \<and> Size v = length as \<and> Vector_inv v \<and>
      (as = [] \<longrightarrow> Capacity v = 0) \<and>
      (as \<noteq> [] \<longrightarrow> (\<exists>i. Capacity v = 2 ^ i \<and> length as \<le> 2 ^ i \<and> 2 ^ i < 2 * length as)) \<and>
      (\<forall>a v'. run_append E v a = Ok v' \<longrightarrow>
         Size v' = Size v + 1 \<and>
         Capacity v' = (if Size v = Capacity v then max 1 (2 * Size v) else Capacity v)))"
proof -
  have start: "(length ([] :: 'a list) = 0 \<and> (0::nat) = 0)
      \<or> (\<exists>i. length ([] :: 'a list) + 0 = 2 ^ i \<and> 2 ^ i < 2 * length ([] :: 'a list))"
    by simp
  note run = run_appends_vec [OF start, of as E, folded Vector_default_vec, unfolded list.size(3)]
  have "appended E [] as = Some (elems v) \<and> Size v = length as \<and> Vector_inv v \<and>
      (as = [] \<longrightarrow> Capacity v = 0) \<and>
      (as \<noteq> [] \<longrightarrow> (\<exists>i. Capacity v = 2 ^ i \<and> length as \<le> 2 ^ i \<and> 2 ^ i < 2 * length as)) \<and>
      (\<forall>a v'. run_append E v a = Ok v' \<longrightarrow>
         Size v' = Size v + 1 \<and>
         Capacity v' = (if Size v = Capacity v then max 1 (2 * Size v) else Capacity v))"
    if ok: "run_appends E Vector_default as = Ok v" for v
  proof -
    from run ok obtain zs k where zs: "appended E [] as = Some zs" and len: "length zs = length as"
      and v: "v = vec zs k"
      and law: "(length zs = 0 \<and> k = 0) \<or> (\<exists>i. length zs + k = 2 ^ i \<and> 2 ^ i < 2 * length zs)"
      by auto
    have "Size v' = Size v + 1 \<and>
        Capacity v' = (if Size v = Capacity v then max 1 (2 * Size v) else Capacity v)"
      if "run_append E v a = Ok v'" for a v'
      using append_vec(3) [of E zs k a v'] that unfolding v
      by (cases k; cases zs) (auto simp: max_def Size_def)
    moreover have "\<exists>i. Capacity v = 2 ^ i \<and> length as \<le> 2 ^ i \<and> 2 ^ i < 2 * length as"
      if "as \<noteq> []"
    proof -
      from law that len obtain i where "length zs + k = 2 ^ i" "2 ^ i < 2 * length zs"
        by auto
      then have "Capacity v = 2 ^ i \<and> length as \<le> 2 ^ i \<and> 2 ^ i < 2 * length as"
        unfolding v len [symmetric] by (metis vec_sel(4) le_add1)
      then show ?thesis by blast
    qed
    moreover have "Capacity v = 0" if "as = []"
      using law that len unfolding v by auto
    ultimately show ?thesis
      unfolding v using zs len by (simp add: Size_def)
  qed
  with run show ?thesis
    by blast
qed

text \<open>
  Five appends, by copy, by move, by \<open>EmplaceBack\<close> and by copy of the first element of
  the vector itself: the capacities are 1, 2, 4, 4 and 8.
\<close>

theorem append_growth_witness:
  "never_throws T_plain \<and>
   refs_valid 0 [ByPushBack (Outside 1), ByPushBack_rvalue (Outside 2),
     ByEmplaceBack (Direct (Some 3)), ByPushBack (Inside 0)] \<and>
   run_appends T_plain Vector_default [ByPushBack (Outside 1)] = Ok (vec [1] 0) \<and>
   run_appends T_plain Vector_default [ByPushBack (Outside 1), ByPushBack_rvalue (Outside 2)]
     = Ok (vec [1, 2] 0) \<and>
   run_appends T_plain Vector_default [ByPushBack (Outside 1), ByPushBack_rvalue (Outside 2),
     ByEmplaceBack (Direct (Some 3))] = Ok (vec [1, 2, 3] 1) \<and>
   run_appends T_plain Vector_default [ByPushBack (Outside 1), ByPushBack_rvalue (Outside 2),
     ByEmplaceBack (Direct (Some 3)), ByPushBack (Inside 0)] = Ok (vec [1, 2, 3, 1] 0) \<and>
   appended T_plain [] [ByPushBack (Outside 1), ByPushBack_rvalue (Outside 2),
     ByEmplaceBack (Direct (Some 3)), ByPushBack (Inside 0)] = Some [1, 2, 3, 1] \<and>
   Capacity (vec [1, 2, 3, 1::nat] 0) = 2 ^ 2 \<and>
   run_append T_plain (vec [1, 2, 3, 1] 0) (ByPushBack_rvalue (Outside 5)) = Ok (vec [1, 2, 3, 1, 5] 3) \<and>
   Size (vec [1, 2, 3, 1::nat] 0) = Capacity (vec [1, 2, 3, 1::nat] 0) \<and>
   Size (vec [1, 2, 3, 1, 5::nat] 3) = Size (vec [1, 2, 3, 1::nat] 0) + 1 \<and>
   Capacity (vec [1, 2, 3, 1, 5::nat] 3) = max 1 (2 * Size (vec [1, 2, 3, 1::nat] 0))"
proof -
  have run: "run_appends T_plain Vector_default [ByPushBack (Outside 1), ByPushBack_rvalue (Outside 2),
     ByEmplaceBack (Direct (Some 3)), ByPushBack (Inside 0)] = Ok (vec [1, 2, 3, 1] 0)"
    by code_simp
  have push: "run_append T_plain (vec [1, 2, 3, 1] 0) (ByPushBack_rvalue (Outside 5))
      = Ok (vec [1, 2, 3, 1, 5] 3)"
    by code_simp
  have full: "Size (vec [1, 2, 3, 1::nat] 0) = Capacity (vec [1, 2, 3, 1::nat] 0)"
    by code_simp
  from append_growth [of "[ByPushBack (Outside 1), ByPushBack_rvalue (Outside 2),
     ByEmplaceBack (Direct (Some 3)), ByPushBack (Inside 0)]" T_plain]
  have "\<forall>a v'. run_append T_plain (vec [1, 2, 3, 1] 0) a = Ok v' \<longrightarrow>
         Size v' = Size (vec [1, 2, 3, 1::nat] 0) + 1 \<and>
         Capacity v' = (if Size (vec [1, 2, 3, 1::nat] 0) = Capacity (vec [1, 2, 3, 1::nat] 0)
                        then max 1 (2 * Size (vec [1, 2, 3, 1::nat] 0))
                        else Capacity (vec [1, 2, 3, 1::nat] 0))"
    unfolding run by blast
  with push full
  have "Size (vec [1, 2, 3, 1, 5::nat] 3) = Size (vec [1, 2, 3, 1::nat] 0) + 1 \<and>
      Capacity (vec [1, 2, 3, 1, 5::nat] 3) = max 1 (2 * Size (vec [1, 2, 3, 1::nat] 0))"
    by (metis (full_types))
  moreover have "run_appends T_plain Vector_default [ByPushBack (Outside 1)] = Ok (vec [1] 0)"
    "run_appends T_plain Vector_default [ByPushBack (Outside 1), ByPushBack_rvalue (Outside 2)]
       = Ok (vec [1, 2] 0)"
    "run_appends T_plain Vector_default [ByPushBack (Outside 1), ByPushBack_rvalue (Outside 2),
       ByEmplaceBack (Direct (Some 3))] = Ok (vec [1, 2, 3] 1)"
    "appended T_plain [] [ByPushBack (Outside 1), ByPushBack_rvalue (Outside 2),
       ByEmplaceBack (Direct (Some 3)), ByPushBack (Inside 0)] = Some [1, 2, 3, 1]"
    "refs_valid 0 [ByPushBack (Outside (1::nat)), ByPushBack_rvalue (Outside 2),
       ByEmplaceBack (Direct (Some 3)), ByPushBack (Inside 0)]"
    "Capacity (vec [1, 2, 3, 1::nat] 0) = 2 ^ 2"
    by code_simp+
  ultimately show ?thesis
    using never_throws_T_plain run push full by simp
qed

section \<open>The state an exception leaves behind in \<open>Emplace\<close>\<close>

lemma live_prefix_shape:
  assumes "map (\<lambda>s. s = None) b = replicate (Suc n) False @ replicate k True"
    and xs: "length xs = n"
  shows "live_prefix (with_buffer (vec xs (Suc k)) b)"
    and "\<not> Vector_inv (with_buffer (vec xs (Suc k)) b)"
proof -
  have len: "length b = Suc (n + k)"
    using arg_cong [OF assms(1), of length] by simp
  have "map (\<lambda>s. s = None) (take (Suc n) b) = replicate (Suc n) False"
    using arg_cong [OF assms(1), of "take (Suc n)"] by (simp add: take_map del: replicate_Suc)
  then have "list_all (\<lambda>s. (s = None) = False) (take (Suc n) b)"
    by (rule all_of_shape)
  then have live: "list_all (\<lambda>s. s \<noteq> None) (take (Suc n) b)"
    by simp
  have front: "list_all (\<lambda>s. s \<noteq> None) (take n b)"
    unfolding list_all_iff
  proof
    fix s
    assume "s \<in> set (take n b)"
    then have "s \<in> set (take n (take (Suc n) b))"
      by simp
    then have "s \<in> set (take (Suc n) b)"
      by (rule in_set_takeD)
    with live show "s \<noteq> None"
      unfolding list_all_iff by blast
  qed
  have "take (Suc n) b ! n = b ! n"
    by simp
  moreover have "n < length (take (Suc n) b)"
    using len by simp
  ultimately have inside: "b ! n \<in> set (take (Suc n) b)"
    by (metis nth_mem)
  from live have "\<forall>s\<in>set (take (Suc n) b). s \<noteq> None"
    by (simp only: list_all_iff)
  from this inside have object: "b ! n \<noteq> None"
    by (rule bspec)
  have "drop n b = b ! n # drop (Suc n) b"
    using len by (simp add: Cons_nth_drop_Suc)
  then have behind: "b ! n \<in> set (drop n b)"
    by simp
  have raw: "\<not> list_all (\<lambda>s. s = None) (drop n b)"
  proof
    assume "list_all (\<lambda>s. s = None) (drop n b)"
    then have "\<forall>s\<in>set (drop n b). s = None"
      by (simp only: list_all_iff)
    from this behind have "b ! n = None"
      by (rule bspec)
    with object show False
      by simp
  qed
  show "live_prefix (with_buffer (vec xs (Suc k)) b)"
    using xs len front by (simp add: live_prefix_def with_buffer_def vec_def)
  show "\<not> Vector_inv (with_buffer (vec xs (Suc k)) b)"
    using xs raw by (simp add: Vector_inv_def with_buffer_def vec_def)
qed

text \<open>
  Whatever exception leaves \<open>Emplace\<close>, the length and the capacity are unchanged and the
  slots below the length hold objects.
\<close>

lemma Emplace_Threw:
  assumes p: "p \<le> length xs" and thrown: "Emplace E (vec xs k) p args = Threw e v'"
  shows "live_prefix v' \<and> m_size v' = length xs \<and> Capacity v' = length xs + k"
proof (cases k)
  case 0
  from thrown show ?thesis
    unfolding 0 Emplace_vec_full EmplaceWithRealloc_vec [OF p]
    by (auto split: if_splits option.splits args.splits)
next
  case (Suc k')
  have untouched: "live_prefix v' \<and> m_size v' = length xs \<and> Capacity v' = length xs + k"
    if "v' = vec ys k" and "length ys = length xs" for ys
    using that by simp
  show ?thesis
  proof (cases "arg_value xs args")
    case None
    with thrown have "v' = vec xs k"
      unfolding Suc Emplace_vec_room EmplaceWithoutRealloc_def Let_def vec_sel construct_T_vec
      by (auto split: if_splits args.splits)
    then show ?thesis
      by (rule untouched) simp
  next
    case (Some t)
    show ?thesis
    proof (cases "arg_throws E args t")
      case True
      with thrown Some have "v' = vec xs k"
        unfolding Suc Emplace_vec_room EmplaceWithoutRealloc_def Let_def vec_sel construct_T_vec
        by (auto split: if_splits)
      then show ?thesis
        by (rule untouched) simp
    next
      case quiet: False
      show ?thesis
      proof (cases "p = length xs")
        case True
        with thrown Some quiet show ?thesis
          unfolding Suc Emplace_vec_room True EmplaceWithoutRealloc_end by simp
      next
        case False
        with p have less: "p < length xs" by simp
        note middle = EmplaceWithoutRealloc_middle [OF less Some quiet, of k']
        show ?thesis
        proof (cases "move_ctor_throws E (last (after_args E xs args))")
          case True
          with middle(1) thrown have "v' = vec (after_args E xs args) k"
            unfolding Suc Emplace_vec_room by simp
          then show ?thesis
            by (rule untouched) simp
        next
          case calm: False
          show ?thesis
          proof (cases "(\<exists>y\<in>set (butlast (drop p (after_args E xs args))). move_assign_throws E y)
              \<or> move_assign_throws E t")
            case True
            from middle(2) [OF calm True] thrown obtain b' where
              "v' = with_buffer (vec xs (Suc k')) b'"
              and "map (\<lambda>s. s = None) b' = replicate (Suc (length xs)) False @ replicate k' True"
              unfolding Suc Emplace_vec_room by auto
            then show ?thesis
              using live_prefix_shape(1) [of b' "length xs" k' xs]
              by (simp add: Suc with_buffer_def Capacity_def)
          next
            case False
            then show ?thesis
              using middle(3) [OF calm] thrown unfolding Suc Emplace_vec_room by auto
          qed
        qed
      qed
    qed
  qed
qed

text \<open>
  A move assignment that throws while \<open>EmplaceWithoutRealloc\<close> shifts the elements leaves
  an object in the slot at \<open>size_\<close>, for every vector and every position before the end.
\<close>

lemma Emplace_shift_throws:
  assumes p: "p < length xs" and val: "arg_value xs args = Some t"
    and quiet: "\<not> arg_throws E args t"
    and calm: "\<not> move_ctor_throws E (last (after_args E xs args))"
    and loud: "(\<exists>y\<in>set (butlast (drop p (after_args E xs args))). move_assign_throws E y)
              \<or> move_assign_throws E t"
  shows "\<exists>v'. Emplace E (vec xs (Suc k)) p args = Threw ElemExn v' \<and>
              live_prefix v' \<and> \<not> Vector_inv v' \<and> m_size v' = length xs"
proof -
  from EmplaceWithoutRealloc_middle(2) [OF p val quiet calm loud, of k] obtain b' where
    thrown: "Emplace E (vec xs (Suc k)) p args = Threw ElemExn (with_buffer (vec xs (Suc k)) b')"
    and shape: "map (\<lambda>s. s = None) b' = replicate (Suc (length xs)) False @ replicate k True"
    unfolding Emplace_vec_room by blast
  have "m_size (with_buffer (vec xs (Suc k)) b') = length xs"
    by (simp add: with_buffer_def)
  with thrown live_prefix_shape [OF shape refl] show ?thesis
    by simp
qed

section \<open>The remaining operations\<close>

text \<open>
  \<open>Swap\<close>, move assignment, \<open>PopBack\<close>, the sized constructor and \<open>Resize\<close> on vectors that
  satisfy the invariant: every result is again such a vector, for a size whose size in
  bytes is a value of \<open>size_t\<close>; for another size the sized constructor and \<open>Resize\<close>
  write behind the block.
\<close>

lemma Swap_vec: "Swap a b = (b, a)"
  by (simp add: Swap_def RawMemory_Swap_def)

lemma move_assign_Vector_other:
  "this \<noteq> rhs \<Longrightarrow> move_assign_Vector st this rhs = st(rhs := Vector_default, this := st rhs)"
  by (auto simp: move_assign_Vector_def Let_def with_buffer_def Vector_default_def
      RawMemory_default_def fun_eq_iff)

lemma move_assign_Vector_self:
  "move_assign_Vector st a a = st"
  by (simp add: move_assign_Vector_def Let_def with_buffer_def)

lemma PopBack_vec:
  "PopBack (vec (xs @ [x]) k) = Ok (vec xs (Suc k))"
proof -
  have "destroy_n (map Some xs @ map Some [x] @ replicate k None) (length (map Some xs)) (length [x])
      = Some (map Some xs @ replicate (length [x]) None @ replicate k None)"
    by (rule destroy_n_append)
  then have "destroy_n (map Some xs @ Some x # replicate k None) (length xs) (Suc 0)
      = Some (map Some xs @ None # replicate k None)"
    by simp
  then show ?thesis
    by (simp add: PopBack_def with_buffer_def vec_def)
qed

lemma PopBack_empty: "PopBack (vec [] k) = Undefined"
  by (simp add: PopBack_def)

lemma Vector_sized_vec:
  assumes fit: "fits E n"
  shows "Vector_sized E n =
     (if n = 0 then Ok (vec [] 0)
      else if alloc_fails E n then Threw BadAlloc ()
      else (case value_init E of
              None \<Rightarrow> Threw ElemExn ()
            | Some d \<Rightarrow> Ok (vec (replicate n d) 0)))"
proof -
  have "uninitialized_value_construct_n E ([] @ replicate n None @ []) (length ([] :: 'a option list)) n
      = (case value_init E of
          None \<Rightarrow> (if n = 0 then Ok ([] @ []) else Threw ElemExn ([] @ replicate n None @ []))
        | Some x \<Rightarrow> Ok ([] @ replicate n (Some x) @ []))"
    by (rule uninitialized_value_construct_n_append)
  then have built: "uninitialized_value_construct_n E (replicate n None) 0 n
      = (case value_init E of
          None \<Rightarrow> (if n = 0 then Ok [] else Threw ElemExn (replicate n None))
        | Some x \<Rightarrow> Ok (replicate n (Some x)))"
    by (cases "value_init E") simp_all
  show ?thesis
    by (cases "value_init E")
      (simp_all add: Vector_sized_def RawMemory_ctor_fits [OF fit] RawMemory_ctor_fitting_def
        built vec_def map_replicate)
qed

lemma uninitialized_value_construct_n_no_room:
  "0 < n \<Longrightarrow> uninitialized_value_construct_n E [] first n = Undefined"
  by (cases n) simp_all

lemma Vector_sized_overflow:
  "Vector_sized T_plain (2 ^ 62) = Undefined"
  by (simp add: Vector_sized_def RawMemory_ctor_def Allocate_def size_t_mod_def T_plain_def
      uninitialized_value_construct_n_no_room)

lemma Resize_shrink:
  assumes "n \<le> length xs"
  shows "Resize E (vec xs k) n = Ok (vec (take n xs) (length xs + k - n))"
proof -
  have "destroy_n (map Some (take n xs) @ map Some (drop n xs) @ replicate k None)
          (length (map Some (take n xs))) (length (drop n xs))
      = Some (map Some (take n xs) @ replicate (length (drop n xs)) None @ replicate k None)"
    by (rule destroy_n_append)
  moreover have "map Some (take n xs) @ map Some (drop n xs) @ replicate k None
      = map Some xs @ replicate k None"
    by (metis append_assoc append_take_drop_id map_append)
  ultimately have "destroy_n (map Some xs @ replicate k None) n (length xs - n)
      = Some (map Some (take n xs) @ replicate (length xs + k - n) None)"
    using assms by (simp add: replicate_add [symmetric] min_absorb2)
  then show ?thesis
    using assms by (simp add: Resize_def with_buffer_def vec_def min_absorb2)
qed

lemma Resize_grow:
  assumes "length xs < n" and fit: "fits E n"
  shows "Resize E (vec xs k) n =
     (case Reserve E (vec xs k) n of
        Threw e v' \<Rightarrow> Threw e v'
      | Undefined \<Rightarrow> Undefined
      | Ok v' \<Rightarrow>
          (case value_init E of
             None \<Rightarrow> Threw ElemExn v'
           | Some d \<Rightarrow> Ok (vec (xs @ replicate (n - length xs) d) (max n (length xs + k) - n))))"
proof -
  define c where "c = max n (length xs + k) - length xs"
  have c: "c = (n - length xs) + (max n (length xs + k) - n)"
    using assms by (simp add: c_def)
  have split_c: "replicate c (None :: 'a option)
      = replicate (n - length xs) None @ replicate (max n (length xs + k) - n) None"
    by (simp only: c replicate_add)
  have reserved: "Reserve E (vec xs k) n = Ok v' \<Longrightarrow> v' = vec xs c" for v'
    unfolding Reserve_vec [OF fit] c_def using assms(1) by (auto split: if_splits simp: max_def)
  have "uninitialized_value_construct_n E
          (map Some xs @ replicate (n - length xs) None @ replicate (max n (length xs + k) - n) None)
          (length (map Some xs)) (n - length xs)
      = (case value_init E of
          None \<Rightarrow> (if n - length xs = 0
                    then Ok (map Some xs @ replicate (max n (length xs + k) - n) None)
                    else Threw ElemExn (map Some xs @ replicate (n - length xs) None
                           @ replicate (max n (length xs + k) - n) None))
        | Some x \<Rightarrow> Ok (map Some xs @ replicate (n - length xs) (Some x)
                          @ replicate (max n (length xs + k) - n) None))"
    by (rule uninitialized_value_construct_n_append)
  then have built: "uninitialized_value_construct_n E (map Some xs @ replicate c None) (length xs)
          (n - length xs)
      = (case value_init E of
          None \<Rightarrow> Threw ElemExn (map Some xs @ replicate c None)
        | Some x \<Rightarrow> Ok (map Some xs @ replicate (n - length xs) (Some x)
                          @ replicate (max n (length xs + k) - n) None))"
    using assms unfolding split_c by (cases "value_init E") simp_all
  have final: "(with_buffer (vec xs c) (map Some xs @ replicate (n - length xs) (Some d)
                  @ replicate (max n (length xs + k) - n) None))\<lparr>m_size := n\<rparr>
      = vec (xs @ replicate (n - length xs) d) (max n (length xs + k) - n)" for d
    using assms c by (simp add: with_buffer_def vec_def map_replicate)
  show ?thesis
  proof (cases "Reserve E (vec xs k) n")
    case (Ok v')
    with reserved have v': "v' = vec xs c"
      by simp
    show ?thesis
      using assms unfolding Resize_def Ok v'
      by (cases "value_init E") (simp_all add: built final)
  next
    case (Threw e v')
    then show ?thesis
      using assms by (simp add: Resize_def)
  next
    case Undefined
    then show ?thesis
      using assms by (simp add: Resize_def)
  qed
qed

lemma Resize_overflow:
  "Resize T_plain (vec [1, 2, 3] 0) (2 ^ 62 + 1) = Undefined"
  by (simp add: Resize_def Reserve_def RawMemory_ctor_def Allocate_def size_t_mod_def T_plain_def
      CopyOrMoveData_def vec_def)

text \<open>
  The scenario of the specification: append 1, 2, 3; resize to 5; resize to 2; insert 99
  at position 1; erase position 0.
\<close>

lemma scenario:
  "run_appends T_plain Vector_default
     [ByPushBack (Outside 1), ByPushBack_rvalue (Outside 2), ByEmplaceBack (Direct (Some 3))]
     = Ok (vec [1, 2, 3] 1)"
  "Resize T_plain (vec [1, 2, 3] 1) 5 = Ok (vec [1, 2, 3, 0, 0] 0)"
  "Resize T_plain (vec [1, 2, 3, 0, 0] 0) 2 = Ok (vec [1, 2] 3)"
  "Insert T_plain (vec [1, 2] 3) 1 (Outside 99) = Ok (vec [1, 99, 2] 2, 1)"
  "Erase T_plain (vec [1, 99, 2] 2) 0 = Ok (vec [99, 2] 3, 0)"
  by code_simp+

end
